theory Spec2Isabelle
  imports Main "HOL-Library.AList"
begin

section \<open>Python values used by the manifest code\<close>

text \<open>
  Strings are \<^typ>\<open>string\<close>: a character is a code point below 256, so the file
  names, tokens and tags covered are those written in that range. There the characters
  matched by \<open>\d\<close> and read by \<open>int()\<close> are the ASCII digits \<open>0\<close> .. \<open>9\<close>;
  \<open>str.isdigit()\<close> also accepts the superscripts one, two and three; \<open>str.strip()\<close>
  removes the characters with \<open>str.isspace()\<close>, and \<open>int()\<close> a smaller set of them.
  Names with digits of other scripts, which \<open>\d\<close> and \<open>int()\<close> read as well, are
  outside this type.
\<close>

datatype error = ValueError | RuntimeError | TypeError
  | SegVerException string | ImageDataMatchingError

definition is_digit :: "char \<Rightarrow> bool" where
  "is_digit c \<longleftrightarrow> 48 \<le> (of_char c :: nat) \<and> (of_char c :: nat) \<le> 57"

definition digit_val :: "char \<Rightarrow> nat" where
  "digit_val c = of_char c - 48"

definition digits_val :: "string \<Rightarrow> nat" where
  "digits_val cs = foldl (\<lambda>a c. 10 * a + digit_val c) 0 cs"

text \<open>\<open>str(n)\<close> for a non-negative integer, and \<open>str(i)\<close> for any integer.\<close>

fun str_nat :: "nat \<Rightarrow> string" where
  "str_nat n = (if n < 10 then [char_of (48 + n)]
                else str_nat (n div 10) @ [char_of (48 + n mod 10)])"

declare str_nat.simps [simp del]

definition str_int :: "int \<Rightarrow> string" where
  "str_int i = (if i < 0 then CHR ''-'' # str_nat (nat (- i)) else str_nat (nat i))"

text \<open>The text an f-string puts for a value that is an integer or \<open>None\<close>.\<close>

definition fmt_opt_int :: "int option \<Rightarrow> string" where
  "fmt_opt_int x = (case x of None \<Rightarrow> ''None'' | Some i \<Rightarrow> str_int i)"

definition py_isspace :: "char \<Rightarrow> bool" where
  "py_isspace c \<longleftrightarrow>
     (of_char c :: nat) \<in> {9, 10, 11, 12, 13, 28, 29, 30, 31, 32, 133, 160}"

definition py_lstrip :: "string \<Rightarrow> string" where
  "py_lstrip s = dropWhile py_isspace s"

definition py_rstrip :: "string \<Rightarrow> string" where
  "py_rstrip s = rev (dropWhile py_isspace (rev s))"

definition py_strip :: "string \<Rightarrow> string" where
  "py_strip s = py_rstrip (py_lstrip s)"

text \<open>
  The digit part of an integer literal accepted by \<open>int()\<close>: digits, with single
  underscores allowed between two digits. The result is the digits without underscores.
\<close>

fun digitpart :: "string \<Rightarrow> string option" where
  "digitpart [] = None"
| "digitpart [c] = (if is_digit c then Some [c] else None)"
| "digitpart (c # d # cs) =
     (if is_digit c
      then (if d = CHR ''_'' then map_option ((#) c) (digitpart cs)
            else map_option ((#) c) (digitpart (d # cs)))
      else None)"

text \<open>
  \<open>int(s)\<close> in base ten; \<open>None\<close> stands for the \<open>ValueError\<close> it raises. The white
  space \<open>int()\<close> skips around the literal does not include the separators 28 .. 31.
\<close>

definition int_isspace :: "char \<Rightarrow> bool" where
  "int_isspace c \<longleftrightarrow> (of_char c :: nat) \<in> {9, 10, 11, 12, 13, 32, 133, 160}"

definition int_strip :: "string \<Rightarrow> string" where
  "int_strip s = rev (dropWhile int_isspace (rev (dropWhile int_isspace s)))"

definition py_int :: "string \<Rightarrow> int option" where
  "py_int s =
     (case int_strip s of
        [] \<Rightarrow> None
      | c # r \<Rightarrow>
          if c = CHR ''+'' then map_option (\<lambda>ds. int (digits_val ds)) (digitpart r)
          else if c = CHR ''-'' then map_option (\<lambda>ds. - int (digits_val ds)) (digitpart r)
          else map_option (\<lambda>ds. int (digits_val ds)) (digitpart (c # r)))"

text \<open>\<open>s.isdigit()\<close>.\<close>

definition py_isdigit :: "string \<Rightarrow> bool" where
  "py_isdigit s \<longleftrightarrow>
     s \<noteq> [] \<and> list_all (\<lambda>c. is_digit c \<or> (of_char c :: nat) \<in> {178, 179, 185}) s"

definition startswith :: "string \<Rightarrow> string \<Rightarrow> bool" where
  "startswith s p \<longleftrightarrow> take (length p) s = p"

definition endswith :: "string \<Rightarrow> string \<Rightarrow> bool" where
  "endswith s x \<longleftrightarrow> length x \<le> length s \<and> drop (length s - length x) s = x"

text \<open>The slice \<open>s[:-k]\<close>; for \<open>k = 0\<close> it is \<open>s[:0]\<close>, the empty string.\<close>

definition slice_off_end :: "string \<Rightarrow> nat \<Rightarrow> string" where
  "slice_off_end s k = (if k = 0 then [] else take (length s - k) s)"

definition py_lower_char :: "char \<Rightarrow> char" where
  "py_lower_char c =
     (if (65 \<le> (of_char c :: nat) \<and> (of_char c :: nat) \<le> 90) \<or>
         (192 \<le> (of_char c :: nat) \<and> (of_char c :: nat) \<le> 222 \<and> (of_char c :: nat) \<noteq> 215)
      then char_of ((of_char c :: nat) + 32) else c)"

definition py_lower :: "string \<Rightarrow> string" where
  "py_lower s = map py_lower_char s"

text \<open>\<open>s.split(c)\<close> for a one-character separator.\<close>

fun py_split :: "char \<Rightarrow> string \<Rightarrow> string list" where
  "py_split c [] = [[]]"
| "py_split c (x # xs) =
     (if x = c then [] # py_split c xs
      else (case py_split c xs of
              [] \<Rightarrow> [[x]]
            | p # ps \<Rightarrow> (x # p) # ps))"

text \<open>\<open>sep.join(xs)\<close>.\<close>

fun py_join :: "string \<Rightarrow> string list \<Rightarrow> string" where
  "py_join sep [] = []"
| "py_join sep [x] = x"
| "py_join sep (x # y # xs) = x @ sep @ py_join sep (y # xs)"

text \<open>\<open>os.path.join\<close> of two and of three components (POSIX).\<close>

definition path_join :: "string \<Rightarrow> string \<Rightarrow> string" where
  "path_join a b =
     (if startswith b ''/'' then b
      else if a = [] \<or> endswith a ''/'' then a @ b
      else a @ ''/'' @ b)"

definition path_join3 :: "string \<Rightarrow> string \<Rightarrow> string \<Rightarrow> string" where
  "path_join3 a b c = path_join (path_join a b) c"

text \<open>\<open>os.path.dirname\<close> and \<open>os.path.basename\<close> (POSIX): split at the last slash.\<close>

definition path_basename :: "string \<Rightarrow> string" where
  "path_basename p = rev (takeWhile (\<lambda>c. c \<noteq> CHR ''/'') (rev p))"

definition path_dirname :: "string \<Rightarrow> string" where
  "path_dirname p =
     (let hd_part = rev (dropWhile (\<lambda>c. c \<noteq> CHR ''/'') (rev p))
      in if hd_part \<noteq> [] \<and> \<not> list_all (\<lambda>c. c = CHR ''/'') hd_part
         then rev (dropWhile (\<lambda>c. c = CHR ''/'') (rev hd_part))
         else hd_part)"

section \<open>The manifest (manifest.py)\<close>

text \<open>
  A version record, a volume entry and the manifest, as the persisted JSON object has
  them. The \<open>volumes\<close> dictionary keeps its insertion order, so it is an association
  list: \<^const>\<open>map_of\<close> looks a subject up, \<^const>\<open>AList.update\<close> assigns to a key
  (in place, or appended at the end for a new key) and \<^const>\<open>AList.delete\<close> is
  \<open>del\<close>.
\<close>

record version_record =
  vid :: string
  vhash :: string
  ts :: string
  author :: string
  vnotes :: string
  tags :: "string list"
  version :: string
  last_updated :: string

record volume_entry =
  selected_version :: "string option"
  versions :: "version_record list"

type_synonym volumes_dict = "(string \<times> volume_entry) list"

record manifest =
  index_name :: string
  volume_path :: string
  volume_extension :: string
  label_path :: string
  label_extension :: string
  volumes :: volumes_dict

definition build_empty_manifest ::
  "string \<Rightarrow> string \<Rightarrow> string \<Rightarrow> string \<Rightarrow> string \<Rightarrow> manifest" where
  "build_empty_manifest iname vpath vext lpath lext =
     \<lparr>index_name = iname, volume_path = vpath, volume_extension = vext,
      label_path = lpath, label_extension = lext, volumes = []\<rparr>"

text \<open>\<open>x or default\<close> for an optional string: \<open>None\<close> and the empty string are falsy.\<close>

definition py_or :: "string option \<Rightarrow> string \<Rightarrow> string" where
  "py_or x d = (case x of None \<Rightarrow> d | Some s \<Rightarrow> if s = [] then d else s)"

text \<open>
  \<open>add_volume_version\<close>. The parameters \<open>hash_string\<close> (the truncated SHA-256 of
  \<open>_hash_string\<close>) and \<open>now1\<close>, \<open>now2\<close> (the two readings of the clock by
  \<open>_utc_iso\<close>) stand for the services the function calls. The result is the returned
  flag and the manifest after the call.
\<close>

definition add_volume_version ::
  "(string \<Rightarrow> string) \<Rightarrow> string \<Rightarrow> string \<Rightarrow> manifest \<Rightarrow> string \<Rightarrow> string \<Rightarrow>
   string \<Rightarrow> string \<Rightarrow> string list option \<Rightarrow> string option \<Rightarrow> string option \<Rightarrow>
   bool \<times> manifest" where
  "add_volume_version hash_string now1 now2 m subject_key ver auth nts tgs ts_arg lu_arg =
     (let tags_val = (case tgs of None \<Rightarrow> [] | Some t \<Rightarrow> t);
          vols1 = (case map_of (volumes m) subject_key of
                     None \<Rightarrow> AList.update subject_key
                               \<lparr>selected_version = Some ver, versions = []\<rparr> (volumes m)
                   | Some _ \<Rightarrow> volumes m);
          ts_val = py_or ts_arg now1;
          lu_val = py_or lu_arg now2;
          version_id = subject_key @ ''-'' @ ver;
          entry = \<lparr>vid = version_id, vhash = hash_string (version_id @ ts_val),
                   ts = ts_val, author = auth, vnotes = nts, tags = tags_val,
                   version = ver, last_updated = lu_val\<rparr>
      in case map_of vols1 subject_key of
           None \<Rightarrow> (False, m\<lparr>volumes := vols1\<rparr>)
         | Some e \<Rightarrow>
             if list_ex (\<lambda>v. version v = ver) (versions e)
             then (False, m\<lparr>volumes := vols1\<rparr>)
             else (True, m\<lparr>volumes :=
                     AList.update subject_key (e\<lparr>versions := versions e @ [entry]\<rparr>) vols1\<rparr>))"

definition remove_volume :: "manifest \<Rightarrow> string \<Rightarrow> manifest" where
  "remove_volume m subject_key =
     (case map_of (volumes m) subject_key of
        None \<Rightarrow> m
      | Some _ \<Rightarrow> m\<lparr>volumes := AList.delete subject_key (volumes m)\<rparr>)"

definition get_all_versions :: "manifest \<Rightarrow> string \<Rightarrow> version_record list" where
  "get_all_versions m subject_key =
     (case map_of (volumes m) subject_key of None \<Rightarrow> [] | Some e \<Rightarrow> versions e)"

definition get_all_version_strings :: "manifest \<Rightarrow> string \<Rightarrow> string list" where
  "get_all_version_strings m subject_key =
     (case map_of (volumes m) subject_key of
        None \<Rightarrow> []
      | Some _ \<Rightarrow> map version (get_all_versions m subject_key))"

definition get_selected_version :: "manifest \<Rightarrow> string \<Rightarrow> string option" where
  "get_selected_version m subject_key =
     (case map_of (volumes m) subject_key of None \<Rightarrow> None | Some e \<Rightarrow> selected_version e)"

definition set_selected_version :: "manifest \<Rightarrow> string \<Rightarrow> string option \<Rightarrow> manifest" where
  "set_selected_version m subject_key v =
     (case map_of (volumes m) subject_key of
        None \<Rightarrow> m
      | Some e \<Rightarrow> m\<lparr>volumes :=
          AList.update subject_key (e\<lparr>selected_version := v\<rparr>) (volumes m)\<rparr>)"

text \<open>
  The loop of \<open>get_latest_version\<close>: the running maximum of \<open>int(version[1:])\<close>; a
  token whose tail is not an integer raises \<open>ValueError\<close>.
\<close>

fun latest_loop :: "version_record list \<Rightarrow> int option \<Rightarrow> error + int option" where
  "latest_loop [] acc = Inr acc"
| "latest_loop (v # vs) acc =
     (case py_int (drop 1 (version v)) of
        None \<Rightarrow> Inl ValueError
      | Some n \<Rightarrow>
          latest_loop vs
            (case acc of None \<Rightarrow> Some n
             | Some a \<Rightarrow> if n > a then Some n else Some a))"

definition get_latest_version :: "manifest \<Rightarrow> string \<Rightarrow> error + int option" where
  "get_latest_version m subject_key =
     (case map_of (volumes m) subject_key of
        None \<Rightarrow> Inr None
      | Some e \<Rightarrow> latest_loop (versions e) None)"

text \<open>
  \<open>remove_volume_version\<close>. The test \<open>if versions:\<close> reads the list as it was before
  the removal; the last step deletes an entry left with no version. The result is the
  returned log line and the manifest after the call.
\<close>

definition remove_volume_version ::
  "manifest \<Rightarrow> string \<Rightarrow> string \<Rightarrow> error + (string \<times> manifest)" where
  "remove_volume_version m subject_key ver =
     (case map_of (volumes m) subject_key of
        None \<Rightarrow> Inr ([], m)
      | Some e \<Rightarrow>
          let old = versions e;
              m1 = m\<lparr>volumes := AList.update subject_key
                     (e\<lparr>versions := filter (\<lambda>v. version v \<noteq> ver) old\<rparr>) (volumes m)\<rparr>;
              finish = (\<lambda>(lg, m2).
                 if get_all_versions m2 subject_key = []
                 then (lg, m2\<lparr>volumes := AList.delete subject_key (volumes m2)\<rparr>)
                 else (lg, m2))
          in if get_selected_version m1 subject_key = Some ver
             then (if old \<noteq> []
                   then (case get_latest_version m1 subject_key of
                           Inl err \<Rightarrow> Inl err
                         | Inr latest \<Rightarrow>
                             let latest_version = ''v'' @ fmt_opt_int latest
                             in Inr (finish
                                  (''Updated selected-version for '' @ subject_key @
                                   '' to latest version '' @ latest_version,
                                   set_selected_version m1 subject_key (Some latest_version))))
                   else Inr (finish
                          (''Removed all versions for '' @ subject_key @
                           '', no selected-version available'',
                           set_selected_version m1 subject_key None)))
             else Inr (finish ([], m1)))"

section \<open>Matching files and reconciling the index (commons.py)\<close>

text \<open>
  \<open>extract_version_number\<close>: \<open>re.match\<close> of \<open>^<vol_name>-v(\d+)$\<close>, the volume
  name escaped, on the segmentation base name. Without the multi-line flag \<open>$\<close> matches
  at the end of the string and also just before a line feed that ends the string.
\<close>

definition extract_version_number :: "string \<Rightarrow> string \<Rightarrow> int option" where
  "extract_version_number seg_base vol_name =
     (if startswith seg_base (vol_name @ ''-v'')
      then (let rest = drop (length vol_name + 2) seg_base;
                ds = (if rest \<noteq> [] \<and> last rest = CHR 0x0A then butlast rest else rest)
            in if ds \<noteq> [] \<and> list_all is_digit ds then py_int ds else None)
      else None)"

text \<open>
  What the code asks of its surroundings: the iteration order of a Python set (a list
  of the elements of the set it is built from), the file names \<open>os.walk\<close> finds under
  a directory, also in its sub-directories (\<open>None\<close> when the path is no directory),
  the files that exist, the content fingerprint of the image at a path (\<open>None\<close> when
  \<open>sitk.ReadImage\<close> cannot read an image there and raises \<open>RuntimeError\<close>), and the
  clock reading taken when the record for a volume and the segmentation at a position of
  the listing is built; then the absolute path of a user's path (\<open>abspath\<close> after
  \<open>expanduser\<close>), the error text when a file cannot be opened for writing or renamed
  (\<open>None\<close> when it can), the geometry properties in which two images differ (\<open>None\<close>
  when one of them cannot be read), the clock reading of a metadata update and the text
  Python prints for a list of strings.
\<close>

record world =
  set_order :: "string list \<Rightarrow> string list"
  dir_files :: "string \<Rightarrow> string list option"
  is_file :: "string \<Rightarrow> bool"
  hash_image :: "string \<Rightarrow> string option"
  clock :: "string \<Rightarrow> nat \<Rightarrow> string"
  abspath :: "string \<Rightarrow> string"
  open_error :: "string \<Rightarrow> string option"
  rename_error :: "string \<Rightarrow> string \<Rightarrow> string option"
  geometry_diffs :: "string \<Rightarrow> string \<Rightarrow> string list option"
  utc_now :: string
  str_of_list :: "string list \<Rightarrow> string"

text \<open>\<open>search_files_in\<close>: the base names of the files with the extension, and their count.\<close>

definition search_files_in :: "string list \<Rightarrow> string \<Rightarrow> string list \<times> nat" where
  "search_files_in filenames extension =
     (let names = map (\<lambda>fname. slice_off_end fname (length extension))
                    (filter (\<lambda>fname. endswith fname extension) filenames)
      in (names, length names))"

definition find_outliers ::
  "(string list \<Rightarrow> string list) \<Rightarrow> string list \<Rightarrow> string list \<Rightarrow> volumes_dict \<Rightarrow>
   string list \<times> string list" where
  "find_outliers so reference_list target_list volumes_index =
     (so (filter (\<lambda>n. n \<notin> set (map fst volumes_index)) (remdups reference_list)),
      so (filter (\<lambda>n. n \<notin> set (concat (map (\<lambda>(k, e). map vid (versions e)) volumes_index)))
            (remdups target_list)))"

text \<open>The sort key \<open>int(x["version"][1:])\<close>; the tokens sorted are \<open>v\<close> and a number.\<close>

definition version_number :: "version_record \<Rightarrow> int" where
  "version_number r = (case py_int (drop 1 (version r)) of None \<Rightarrow> 0 | Some n \<Rightarrow> n)"

text \<open>
  The candidate versions of one volume: the inner loop over the segmentations, from
  position \<open>j\<close> of the listing on. The fingerprint is taken of the file with the base
  name directly under the segmentations directory; when that image cannot be read, the
  exception leaves the loop and \<open>verify_volseg_match\<close>.
\<close>

fun match_versions_from ::
  "world \<Rightarrow> string \<Rightarrow> string \<Rightarrow> string \<Rightarrow> nat \<Rightarrow> string list \<Rightarrow> version_record list \<Rightarrow>
   error + version_record list" where
  "match_versions_from w segmentations_path sext vol_name j [] vers = Inr vers"
| "match_versions_from w segmentations_path sext vol_name j (seg_base # rest) vers =
     (if \<not> startswith seg_base (vol_name @ ''-v'')
      then match_versions_from w segmentations_path sext vol_name (Suc j) rest vers
      else (case extract_version_number seg_base vol_name of
              None \<Rightarrow>
                match_versions_from w segmentations_path sext vol_name (Suc j) rest vers
            | Some ver_num \<Rightarrow>
                (case hash_image w (path_join segmentations_path (seg_base @ sext)) of
                   None \<Rightarrow> Inl RuntimeError
                 | Some h \<Rightarrow>
                     match_versions_from w segmentations_path sext vol_name (Suc j) rest
                       (vers @
                        [\<lparr>vid = seg_base, vhash = h,
                          ts = clock w vol_name j, author = [], vnotes = [], tags = [],
                          version = ''v'' @ str_int ver_num,
                          last_updated = clock w vol_name j\<rparr>]))))"

definition match_versions ::
  "world \<Rightarrow> string \<Rightarrow> string \<Rightarrow> string \<Rightarrow> string list \<Rightarrow> error + version_record list" where
  "match_versions w segmentations_path sext vol_name tar_fnames =
     match_versions_from w segmentations_path sext vol_name 0 tar_fnames []"

text \<open>The body of the outer loop, for one volume, and the loop over the volumes.\<close>

definition index_volume ::
  "world \<Rightarrow> string \<Rightarrow> string \<Rightarrow> string list \<Rightarrow> string \<Rightarrow> volumes_dict \<Rightarrow>
   error + volumes_dict" where
  "index_volume w segmentations_path sext tar_fnames vol_name volumes_index =
     (case match_versions w segmentations_path sext vol_name tar_fnames of
        Inl err \<Rightarrow> Inl err
      | Inr vs \<Rightarrow>
          if vs \<noteq> []
          then (let sorted_vs = sort_key version_number vs
                in Inr (AList.update vol_name
                     \<lparr>selected_version = Some (version (last sorted_vs)),
                      versions = sorted_vs\<rparr> volumes_index))
          else Inr volumes_index)"

fun index_volumes ::
  "world \<Rightarrow> string \<Rightarrow> string \<Rightarrow> string list \<Rightarrow> string list \<Rightarrow> volumes_dict \<Rightarrow>
   error + volumes_dict" where
  "index_volumes w segmentations_path sext tar_fnames [] volumes_index = Inr volumes_index"
| "index_volumes w segmentations_path sext tar_fnames (vol_name # rest) volumes_index =
     (case index_volume w segmentations_path sext tar_fnames vol_name volumes_index of
        Inl err \<Rightarrow> Inl err
      | Inr volumes_index' \<Rightarrow>
          index_volumes w segmentations_path sext tar_fnames rest volumes_index')"

definition bereft_message :: "string \<Rightarrow> string list \<Rightarrow> string" where
  "bereft_message title fnames =
     [CHR 0x0A] @ ''The following files will not be included in the main tracking index!''
     @ [CHR 0x0A] @ title @ [CHR 0x0A]
     @ concat (map (\<lambda>fname. [CHR 0x09] @ fname @ [CHR 0x0A]) fnames)"

text \<open>
  \<open>verify_volseg_match\<close>: the log, the warnings, the errors and the volumes index, or
  the exception of a fingerprint that could not be taken.
\<close>

definition verify_volseg_match ::
  "world \<Rightarrow> string \<Rightarrow> string \<Rightarrow> string \<Rightarrow> string \<Rightarrow>
   error + (string list \<times> string list \<times> string list \<times> volumes_dict)" where
  "verify_volseg_match w volumes_path vext segmentations_path sext =
     (let (ref_fnames, ref_count, log1, err1) =
            (case dir_files w volumes_path of
               Some fs \<Rightarrow>
                 (let (names, cnt) = search_files_in fs vext
                  in if cnt = 0
                     then (names, cnt, [],
                           [[CHR 0x0A] @ ''Directory '' @ volumes_path @
                            '' does not have any '' @ vext @ '' file!''])
                     else (names, cnt,
                           [str_nat cnt @ '' volumes found in '' @ volumes_path], []))
             | None \<Rightarrow>
                 ([], 0, [],
                  [[CHR 0x0A] @ ''Directory '' @ volumes_path @ '' does not exist!'']));
          (tar_fnames, tar_count, log2, err2) =
            (case dir_files w segmentations_path of
               Some fs \<Rightarrow>
                 (let (names, cnt) = search_files_in fs sext
                  in if cnt = 0
                     then (names, cnt, [],
                           [[CHR 0x0A] @ ''Directory '' @ segmentations_path @
                            '' does not have any '' @ sext @ '' file!''])
                     else (names, cnt,
                           [str_nat cnt @ '' segmentations found in '' @ segmentations_path],
                           []))
             | None \<Rightarrow>
                 ([], 0, [],
                  [[CHR 0x0A] @ ''Directory '' @ segmentations_path @ '' does not exist!'']))
      in case index_volumes w segmentations_path sext tar_fnames
                (set_order w (remdups ref_fnames)) [] of
           Inl err \<Rightarrow> Inl err
         | Inr volumes_index \<Rightarrow>
             (let warning_messages =
                    (if ref_count > 0 \<and> tar_count > 0
                     then (let (only_in_reference, only_in_target) =
                                 find_outliers (set_order w) ref_fnames tar_fnames volumes_index
                           in (if only_in_reference \<noteq> []
                               then [bereft_message ''Volumes without segmentation: ''
                                       only_in_reference]
                               else [])
                              @ (if only_in_target \<noteq> []
                                 then [bereft_message ''Segmentations without volume: ''
                                         only_in_target]
                                 else []))
                     else [])
              in Inr (log1 @ log2, warning_messages, err1 @ err2, volumes_index)))"

text \<open>
  \<open>update_index\<close>. The new manifest is read only through its \<open>volumes\<close>, so the
  model takes that dictionary; the lists of warnings and errors the function returns
  are always empty and are left out of the result. The entry of a new subject is shared
  with the new manifest, which is not read again after the merge. Its first loop merges
  the new entries.
\<close>

definition added_segmentation :: "string \<Rightarrow> string \<Rightarrow> string" where
  "added_segmentation ver subject_key =
     ''Added new segmentation '' @ ver @ '' to volume '' @ subject_key"

definition merge_entry ::
  "string \<times> volume_entry \<Rightarrow> string list \<times> manifest \<Rightarrow> string list \<times> manifest" where
  "merge_entry = (\<lambda>(subject_key, new_vol_data) (lg, m).
     case map_of (volumes m) subject_key of
       None \<Rightarrow>
         (lg @ [''Added new volume entry: '' @ subject_key]
             @ map (\<lambda>v. added_segmentation (version v) subject_key) (versions new_vol_data),
          m\<lparr>volumes := AList.update subject_key new_vol_data (volumes m)\<rparr>)
     | Some e \<Rightarrow>
         (let existing_versions = get_all_version_strings m subject_key;
              fresh = filter (\<lambda>v. version v \<notin> set existing_versions) (versions new_vol_data)
          in (lg @ map (\<lambda>v. added_segmentation (version v) subject_key) fresh,
              m\<lparr>volumes :=
                 AList.update subject_key (e\<lparr>versions := versions e @ fresh\<rparr>) (volumes m)\<rparr>)))"

definition merge_new_volumes ::
  "volumes_dict \<Rightarrow> string list \<times> manifest \<Rightarrow> string list \<times> manifest" where
  "merge_new_volumes new_volumes st = fold merge_entry new_volumes st"

definition all_version_ids :: "volumes_dict \<Rightarrow> string list" where
  "all_version_ids vols =
     concat (map (\<lambda>subject_key.
        (case map_of vols subject_key of None \<Rightarrow> [] | Some e \<Rightarrow> map vid (versions e)))
        (map fst vols))"

definition remove_volumes ::
  "string list \<Rightarrow> string list \<times> manifest \<Rightarrow> string list \<times> manifest" where
  "remove_volumes removed st =
     fold (\<lambda>subject_key (lg, m).
        (lg @ [''Removed volume entry: '' @ subject_key], remove_volume m subject_key))
       removed st"

text \<open>
  The inner loop of the removal of segmentations runs over the items of the manifest's
  own dictionary while \<open>remove_volume_version\<close> may delete the entry it is visiting; the
  next step of the iteration then raises \<open>RuntimeError\<close> (dictionary changed size during
  iteration), also when the entry was the last one.
\<close>

fun remove_seg_everywhere ::
  "string \<Rightarrow> string list \<Rightarrow> string list \<times> manifest \<Rightarrow> error + (string list \<times> manifest)" where
  "remove_seg_everywhere seg_id [] st = Inr st"
| "remove_seg_everywhere seg_id (subject_key # rest) (lg, m) =
     (case remove_volume_version m subject_key
             (''v'' @ fmt_opt_int (extract_version_number seg_id subject_key)) of
        Inl err \<Rightarrow> Inl err
      | Inr (msg, m') \<Rightarrow>
          (let lg' = lg @ [''Removed segmentation version '' @ seg_id @
                           '' from volume '' @ subject_key]
                        @ (if msg \<noteq> [] then [msg] else [])
           in if length (volumes m') \<noteq> length (volumes m) then Inl RuntimeError
              else remove_seg_everywhere seg_id rest (lg', m')))"

fun remove_segs ::
  "string list \<Rightarrow> string list \<times> manifest \<Rightarrow> error + (string list \<times> manifest)" where
  "remove_segs [] st = Inr st"
| "remove_segs (seg_id # rest) (lg, m) =
     (case remove_seg_everywhere seg_id (map fst (volumes m)) (lg, m) of
        Inl err \<Rightarrow> Inl err
      | Inr st' \<Rightarrow> remove_segs rest st')"

definition update_index ::
  "(string list \<Rightarrow> string list) \<Rightarrow> manifest \<Rightarrow> volumes_dict \<Rightarrow>
   error + (string list \<times> manifest)" where
  "update_index so m new_volumes =
     (let volume_set = map fst (volumes m);
          new_volume_set = map fst new_volumes;
          seg_set = all_version_ids (volumes m);
          new_seg_set = all_version_ids new_volumes;
          st1 = merge_new_volumes new_volumes ([], m);
          removed_volumes = so (filter (\<lambda>k. k \<notin> set new_volume_set) (remdups volume_set));
          st2 = remove_volumes removed_volumes st1;
          removed_segs = so (filter (\<lambda>i. i \<notin> set new_seg_set) (remdups seg_set))
      in remove_segs removed_segs st2)"

section \<open>The index service (koms\_service.py)\<close>

text \<open>
  The methods of \<open>KomsService\<close> take the fields of the service they read (the manifest,
  the instance directory, the name of the active index) and return the manifest they
  leave; \<open>save_manifest\<close> writes that manifest to its file and is not modelled further.
\<close>

definition get_volume_seg_tuples ::
  "manifest \<Rightarrow> string \<Rightarrow> (string \<times> string \<times> string) list" where
  "get_volume_seg_tuples m root_dir =
     concat (map (\<lambda>subject_key.
        (case get_selected_version m subject_key of
           None \<Rightarrow> []
         | Some sel \<Rightarrow>
             if sel = [] then []
             else [(subject_key,
                    path_join3 root_dir (volume_path m) (subject_key @ volume_extension m),
                    path_join3 root_dir (label_path m)
                      (subject_key @ ''-'' @ sel @ label_extension m))]))
        (map fst (volumes m)))"

definition validate_csv_path :: "world \<Rightarrow> string \<Rightarrow> string list" where
  "validate_csv_path w file_path =
     (let full_path = abspath w file_path;
          directory = path_dirname full_path;
          filename = path_basename full_path
      in (if dir_files w directory = None
          then [''Directory does not exist: '' @ directory] else [])
         @ (if \<not> endswith (py_lower filename) ''.csv''
            then [''File does not have a .csv extension: '' @ filename] else []))"

text \<open>
  \<open>export_index\<close>: the log and the strings written to the file, in order, or the
  exception raised; nothing is written when it raises.
\<close>

definition export_index ::
  "world \<Rightarrow> manifest \<Rightarrow> string \<Rightarrow> string \<Rightarrow> string \<Rightarrow>
   error + (string list \<times> string list)" where
  "export_index w m segver_directory active_index output_csv_path =
     (case validate_csv_path w output_csv_path of
        e # _ \<Rightarrow> Inl (SegVerException e)
      | [] \<Rightarrow>
          (let volume_seg_tuples = get_volume_seg_tuples m segver_directory
           in if volume_seg_tuples = []
              then Inl (SegVerException ''No volumes found in the current index.'')
              else (case open_error w output_csv_path of
                      Some msg \<Rightarrow>
                        Inl (SegVerException
                               (''Could not write to '' @ output_csv_path @ '': '' @ msg))
                    | None \<Rightarrow>
                        Inr ([''Exporting '' @ str_nat (length volume_seg_tuples) @
                              '' volume-segmentation pairs from index '' @ [CHR 0x27] @
                              active_index @ [CHR 0x27] @ ''.'',
                              ''Exported to '' @ output_csv_path],
                             (''VOLUME FILE,SEGMENTATION FILE'' @ [CHR 0x0A]) #
                             map (\<lambda>(_, vfname, sfname).
                                    py_rstrip vfname @ '','' @ py_rstrip sfname @ [CHR 0x0A])
                               volume_seg_tuples))))"

text \<open>
  \<open>link_segmentation\<close>: the world after the call (a renamed file stays renamed) and
  the log, warnings, errors and manifest, or the exception raised. The call that is to
  append the version passes the keyword argument \<open>hash\<close>, which \<open>add_volume_version\<close>
  does not have: Python raises \<open>TypeError\<close> there, after the fingerprint is computed.
  \<open>check_geometry\<close> and the fingerprint read the images, and raise \<open>RuntimeError\<close>
  when one cannot be read; a renamed file takes its fingerprint along.
\<close>

definition next_version :: "manifest \<Rightarrow> string \<Rightarrow> string \<Rightarrow> error + int" where
  "next_version m seg_base vol_base =
     (case extract_version_number seg_base vol_base of
        Some v \<Rightarrow> Inr v
      | None \<Rightarrow>
          (case get_latest_version m vol_base of
             Inl err \<Rightarrow> Inl err
           | Inr None \<Rightarrow> Inr 1
           | Inr (Some latest) \<Rightarrow> Inr (latest + 1)))"

definition link_segmentation ::
  "world \<Rightarrow> manifest \<Rightarrow> string \<Rightarrow> string \<Rightarrow> string \<Rightarrow>
   world \<times> (error + (string list \<times> string list \<times> string list \<times> manifest))" where
  "link_segmentation w m segver_directory volume_fname seg_fname =
     (let volumes_path = path_join segver_directory (volume_path m);
          vext = volume_extension m;
          segmentations_path = path_join segver_directory (label_path m);
          sext = label_extension m;
          errors1 =
            (if \<not> endswith volume_fname vext
             then [''Volume file does not end with '' @ vext @ '': '' @ volume_fname] else [])
            @ (if \<not> endswith seg_fname sext
               then [''Segmentation file does not end with '' @ sext @ '': '' @ seg_fname]
               else [])
      in if errors1 \<noteq> [] then (w, Inr ([], [], errors1, m))
         else
          (let volume_file = path_join volumes_path volume_fname;
               seg_path = path_join segmentations_path seg_fname;
               errors2 =
                 (if \<not> is_file w volume_file
                  then [''Volume file not found in volumes directory: '' @ volume_file]
                  else [])
                 @ (if \<not> is_file w seg_path
                    then [''Segmentation file not found in segmentations directory: '' @
                          seg_path]
                    else [])
           in if errors2 \<noteq> [] then (w, Inr ([], [], errors2, m))
              else
               (let vol_base = slice_off_end volume_fname (length vext);
                    seg_base = slice_off_end seg_fname (length sext)
                in case geometry_diffs w volume_file seg_path of
                     None \<Rightarrow> (w, Inl RuntimeError)
                   | Some diffs \<Rightarrow>
                    if diffs \<noteq> [] then (w, Inl ImageDataMatchingError)
                    else
                    (case next_version m seg_base vol_base of
                       Inl err \<Rightarrow> (w, Inl err)
                     | Inr ver \<Rightarrow>
                         (let target_seg_path =
                                path_join segmentations_path
                                  (vol_base @ ''-v'' @ str_int ver @ sext)
                          in if target_seg_path \<noteq> seg_path
                             then (if is_file w target_seg_path
                                   then (w, Inr ([], [],
                                           [''Target segmentation name already exists: '' @
                                            target_seg_path], m))
                                   else (case rename_error w seg_path target_seg_path of
                                           Some msg \<Rightarrow>
                                             (w, Inr ([], [],
                                                [''Failed to rename segmentation: '' @ msg],
                                                m))
                                         | None \<Rightarrow>
                                             (let w' = w\<lparr>is_file := (is_file w)
                                                          (seg_path := False,
                                                           target_seg_path := True),
                                                        hash_image := (hash_image w)
                                                          (seg_path := None,
                                                           target_seg_path :=
                                                             hash_image w seg_path)\<rparr>
                                              in case hash_image w' target_seg_path of
                                                   None \<Rightarrow> (w', Inl RuntimeError)
                                                 | Some h \<Rightarrow> (w', Inl TypeError))))
                             else (case hash_image w seg_path of
                                     None \<Rightarrow> (w, Inl RuntimeError)
                                   | Some h \<Rightarrow> (w, Inl TypeError)))))))"

text \<open>\<open>select_segmentation\<close>: the log, warnings, errors and manifest, or the exception.\<close>

definition select_segmentation ::
  "world \<Rightarrow> manifest \<Rightarrow> string \<Rightarrow> string \<Rightarrow> string \<Rightarrow>
   error + (string list \<times> string list \<times> string list \<times> manifest)" where
  "select_segmentation w m segver_directory volume_fname seg_version_arg =
     (let seg_version = py_strip seg_version_arg
      in if \<not> startswith seg_version ''v'' \<or> \<not> py_isdigit (drop 1 seg_version)
         then Inr ([], [],
                [''Version must be like v<N>: received '' @ [CHR 0x27] @ seg_version @
                 [CHR 0x27]], m)
         else
          (let volumes_path = path_join segver_directory (volume_path m);
               vext = volume_extension m;
               segmentations_path = path_join segver_directory (label_path m);
               sext = label_extension m
           in if \<not> endswith volume_fname vext
              then Inr ([], [],
                     [''Volume file does not end with '' @ vext @ '': '' @ volume_fname], m)
              else
               (let vol_base = slice_off_end volume_fname (length vext);
                    expected_seg_fname = vol_base @ ''-'' @ seg_version @ sext
                in if map_of (volumes m) vol_base = None
                   then Inr ([], [],
                          [''Volume '' @ [CHR 0x27] @ vol_base @ [CHR 0x27] @
                           '' not found in manifest.''], m)
                   else
                    (let volume_file = path_join volumes_path volume_fname
                     in if \<not> is_file w volume_file
                        then Inr ([], [],
                               [''Volume file not found: '' @ volume_file,
                                ''Removed volume '' @ [CHR 0x27] @ vol_base @ [CHR 0x27] @
                                '' from manifest.''],
                               remove_volume m vol_base)
                        else
                         (let seg_path = path_join segmentations_path expected_seg_fname;
                              old_selected = get_selected_version m vol_base;
                              manifest_versions = get_all_version_strings m vol_base
                          in if seg_version \<notin> set manifest_versions
                             then Inr ([], [''No changes made to manifest.''],
                                    [''Version '' @ [CHR 0x27] @ seg_version @ [CHR 0x27] @
                                     '' not found in manifest for volume '' @ [CHR 0x27] @
                                     vol_base @ [CHR 0x27] @ ''.'',
                                     ''Please select from available versions: '' @
                                     py_join '', '' manifest_versions @ ''.''], m)
                             else if \<not> is_file w seg_path
                             then (case remove_volume_version m vol_base seg_version of
                                     Inl err \<Rightarrow> Inl err
                                   | Inr (_, m') \<Rightarrow>
                                       (let errs =
                                              [''Segmentation file not found: '' @
                                               expected_seg_fname,
                                               ''Removed version '' @ [CHR 0x27] @
                                               seg_version @ [CHR 0x27] @
                                               '' from manifest for volume '' @ [CHR 0x27] @
                                               vol_base @ [CHR 0x27] @ ''.''];
                                            w1 = ''Please select from available versions: ''
                                                 @ py_join '', ''
                                                     (get_all_version_strings m' vol_base)
                                                 @ ''.''
                                        in if old_selected = Some seg_version
                                           then (case get_latest_version m' vol_base of
                                                   Inl err \<Rightarrow> Inl err
                                                 | Inr latest \<Rightarrow>
                                                     Inr ([],
                                                       [w1,
                                                        ''Previously selected version no longer available. Defaulting to version v''
                                                        @ fmt_opt_int latest],
                                                       errs, m'))
                                           else Inr ([],
                                                  [w1, ''No changes made to manifest.''],
                                                  errs, m')))
                             else
                              (let m' = set_selected_version m vol_base (Some seg_version)
                               in if old_selected = Some seg_version
                                  then Inr ([],
                                         [''Selected version is already '' @ [CHR 0x27] @
                                          seg_version @ [CHR 0x27] @ '' for volume '' @
                                          [CHR 0x27] @ vol_base @ [CHR 0x27] @ ''.''],
                                         [], m')
                                  else Inr ([''Selected segmentation updated: '' @ vol_base @
                                             '' -> '' @ vol_base @ ''-'' @ seg_version],
                                            [], [], m')))))))"

text \<open>
  \<open>update_segmentation_metadata\<close>. A supplied value is compared with the stored one
  as Python compares two values: a string and a list are never equal.
\<close>

datatype pyval = PyStr string | PyList "string list"

definition rjust45 :: "string \<Rightarrow> string" where
  "rjust45 s = replicate (45 - length s) CHR '' '' @ s"

definition update_version_metadata ::
  "world \<Rightarrow> string \<Rightarrow> string \<Rightarrow> string \<Rightarrow> string \<Rightarrow> string \<Rightarrow> version_record \<Rightarrow>
   string list \<times> version_record" where
  "update_version_metadata w vol_base seg_version seg_author seg_notes seg_tags v =
     (let (log1, v1, c1) =
            (if seg_author \<noteq> [] \<and> seg_author \<noteq> author v
             then ([rjust45 ''Old author'' @ '' : '' @ author v,
                    rjust45 ''New author'' @ '' : '' @ seg_author],
                   v\<lparr>author := seg_author\<rparr>, True)
             else ([rjust45 ''Author'' @ '' : '' @ author v @ '' (unchanged)''], v, False));
          (log2, v2, c2) =
            (if seg_notes \<noteq> [] \<and> seg_notes \<noteq> vnotes v1
             then ([rjust45 ''Old notes'' @ '' : '' @ vnotes v1,
                    rjust45 ''New notes'' @ '' : '' @ seg_notes],
                   v1\<lparr>vnotes := seg_notes\<rparr>, True)
             else ([rjust45 ''Notes'' @ '' : '' @ vnotes v1 @ '' (unchanged)''], v1, c1));
          (log3, v3, c3) =
            (if seg_tags \<noteq> [] \<and> PyStr seg_tags \<noteq> PyList (tags v2)
             then (let new_tags = map py_strip (py_split CHR '','' seg_tags)
                   in ([rjust45 ''Old tags'' @ '' : '' @ str_of_list w (tags v2),
                        rjust45 ''New tags'' @ '' : '' @ str_of_list w new_tags],
                       v2\<lparr>tags := new_tags\<rparr>, True))
             else ([rjust45 ''Tags'' @ '' : '' @ str_of_list w (tags v2) @ '' (unchanged)''],
                   v2, c2))
      in if \<not> c3
         then (log1 @ log2 @ log3 @
               [''No changes made to metadata for volume '' @ [CHR 0x27] @ vol_base @
                [CHR 0x27] @ '', version '' @ [CHR 0x27] @ seg_version @ [CHR 0x27] @ ''.''],
               v3)
         else (log1 @ log2 @ log3 @ [rjust45 ''Last updated'' @ '' : '' @ utc_now w],
               v3\<lparr>last_updated := utc_now w\<rparr>))"

text \<open>The loop over the versions: the first record with the token is updated.\<close>

fun update_first_version ::
  "(version_record \<Rightarrow> string list \<times> version_record) \<Rightarrow> string \<Rightarrow> version_record list \<Rightarrow>
   (string list \<times> version_record list) option" where
  "update_first_version f seg_version [] = None"
| "update_first_version f seg_version (v # vs) =
     (if version v = seg_version
      then (case f v of (lg, v') \<Rightarrow> Some (lg, v' # vs))
      else map_option (\<lambda>(lg, vs'). (lg, v # vs')) (update_first_version f seg_version vs))"

definition update_segmentation_metadata ::
  "world \<Rightarrow> manifest \<Rightarrow> string \<Rightarrow> string \<Rightarrow> string \<Rightarrow> string \<Rightarrow> string \<Rightarrow>
   string list \<times> string list \<times> string list \<times> manifest" where
  "update_segmentation_metadata w m volume_fname seg_version seg_author seg_notes seg_tags =
     (let vol_base = slice_off_end volume_fname (length (volume_extension m))
      in case map_of (volumes m) vol_base of
           None \<Rightarrow>
             ([], [],
              [''Volume '' @ [CHR 0x27] @ vol_base @ [CHR 0x27] @ '' not found in manifest.''],
              m)
         | Some e \<Rightarrow>
             (case update_first_version
                     (update_version_metadata w vol_base seg_version seg_author seg_notes
                        seg_tags)
                     seg_version (versions e) of
                None \<Rightarrow>
                  ([], [],
                   [''Version '' @ [CHR 0x27] @ seg_version @ [CHR 0x27] @
                    '' not found for volume '' @ [CHR 0x27] @ vol_base @ [CHR 0x27] @ ''.''],
                   m)
              | Some (lg, vs') \<Rightarrow>
                  (lg @ [[], ''Metadata updated for volume '' @ [CHR 0x27] @ vol_base @
                         [CHR 0x27] @ '', version '' @ [CHR 0x27] @ seg_version @
                         [CHR 0x27] @ ''.''],
                   [], [],
                   m\<lparr>volumes :=
                      AList.update vol_base (e\<lparr>versions := vs'\<rparr>) (volumes m)\<rparr>)))"

section \<open>The naming convention\<close>

text \<open>
  The naming convention in the spec's words: the base name is the volume's name, then
  \<open>-v\<close>, then one or more digits and nothing else.
\<close>

definition names_version :: "string \<Rightarrow> string \<Rightarrow> bool" where
  "names_version seg_base vol_name \<longleftrightarrow>
     startswith seg_base (vol_name @ ''-v'') \<and>
     drop (length vol_name + 2) seg_base \<noteq> [] \<and>
     list_all is_digit (drop (length vol_name + 2) seg_base)"

section \<open>Example data\<close>

text \<open>A version record as the matcher builds it, a small world and small manifests.\<close>

definition ex_version :: "string \<Rightarrow> string \<Rightarrow> version_record" where
  "ex_version i tok =
     \<lparr>vid = i, vhash = ''h'', ts = ''t'', author = [], vnotes = [], tags = [],
      version = tok, last_updated = ''t''\<rparr>"

definition ex_world :: "string list \<Rightarrow> string list \<Rightarrow> string list \<Rightarrow> world" where
  "ex_world vols segs files =
     \<lparr>set_order = (\<lambda>xs. xs),
      dir_files = (\<lambda>p. if p = ''/d/vols'' then Some vols
                       else if p = ''/d/segs'' then Some segs
                       else if p = ''/d'' then Some [] else None),
      is_file = (\<lambda>p. p \<in> set files),
      hash_image = (\<lambda>p. Some ''h''),
      clock = (\<lambda>v j. ''t''),
      abspath = (\<lambda>p. p),
      open_error = (\<lambda>p. None),
      rename_error = (\<lambda>p q. None),
      geometry_diffs = (\<lambda>p q. Some []),
      utc_now = ''t2'',
      str_of_list = (\<lambda>xs. py_join '','' xs)\<rparr>"

definition ex_manifest :: "volumes_dict \<Rightarrow> manifest" where
  "ex_manifest vols =
     (build_empty_manifest ''index'' ''vols'' ''.nii'' ''segs'' ''.nii'')\<lparr>volumes := vols\<rparr>"

definition ex_entry :: "string \<Rightarrow> string \<Rightarrow> string list \<Rightarrow> volume_entry" where
  "ex_entry subject sel toks =
     \<lparr>selected_version = Some sel,
      versions = map (\<lambda>tok. ex_version (subject @ ''-'' @ tok) tok) toks\<rparr>"

section \<open>Well-formed version tokens\<close>

text \<open>
  A version token as the code writes it: \<open>v\<close> followed by the decimal numeral of a
  non-negative integer, that is, the f-string \<open>v{N}\<close> of the number it is read as.
\<close>

definition is_version_token :: "string \<Rightarrow> bool" where
  "is_version_token t \<longleftrightarrow>
     (case py_int (drop 1 t) of None \<Rightarrow> False | Some n \<Rightarrow> 0 \<le> n \<and> t = ''v'' @ str_int n)"

section \<open>Sequences of manifest operations\<close>

text \<open>
  Invariant I2 for one entry and for the manifest, and the entries the operations keep:
  every token a version token, and I2.
\<close>

definition selection_ok :: "volume_entry \<Rightarrow> bool" where
  "selection_ok e \<longleftrightarrow>
     (case selected_version e of
        None \<Rightarrow> True
      | Some t \<Rightarrow> list_ex (\<lambda>r. version r = t) (versions e))"

definition invariant_I2 :: "manifest \<Rightarrow> bool" where
  "invariant_I2 m \<longleftrightarrow> list_all (\<lambda>(k, e). selection_ok e) (volumes m)"

definition entry_ok :: "volume_entry \<Rightarrow> bool" where
  "entry_ok e \<longleftrightarrow>
     list_all (\<lambda>r. is_version_token (version r)) (versions e) \<and> selection_ok e"

definition manifest_ok :: "manifest \<Rightarrow> bool" where
  "manifest_ok m \<longleftrightarrow> list_all (\<lambda>(k, e). entry_ok e) (volumes m)"

text \<open>
  The operations on the manifest: \<open>add_volume_version\<close> with the token \<open>v{N}\<close> its
  caller forms, the \<open>update\<close> command (the matcher on the manifest's own paths, then
  \<open>update_index\<close>, here also when the matcher reports errors or warnings),
  \<open>remove_volume\<close>, \<open>remove_volume_version\<close> and \<open>select_segmentation\<close>. An
  operation that raises ends the run.
\<close>

datatype op =
    AddVersion "string \<Rightarrow> string" string string string nat string string
      "string list option" "string option" "string option"
  | Update world string
  | RemoveVolume string
  | RemoveVersion string string
  | SelectSegmentation world string string string

definition get_volseg_matches ::
  "world \<Rightarrow> manifest \<Rightarrow> string \<Rightarrow> error + volumes_dict" where
  "get_volseg_matches w m segver_directory =
     (case verify_volseg_match w
             (path_join segver_directory (volume_path m)) (volume_extension m)
             (path_join segver_directory (label_path m)) (label_extension m) of
        Inl err \<Rightarrow> Inl err
      | Inr (lg, warnings, errors, matches) \<Rightarrow> Inr matches)"

fun apply_op :: "manifest \<Rightarrow> op \<Rightarrow> error + manifest" where
  "apply_op m (AddVersion h n1 n2 k n a nt tg tsa lua) =
     Inr (snd (add_volume_version h n1 n2 m k (''v'' @ str_int (int n)) a nt tg tsa lua))"
| "apply_op m (Update w d) =
     (case get_volseg_matches w m d of
        Inl err \<Rightarrow> Inl err
      | Inr matches \<Rightarrow>
          (case update_index (set_order w) m matches of
             Inl err \<Rightarrow> Inl err
           | Inr (lg, m') \<Rightarrow> Inr m'))"
| "apply_op m (RemoveVolume k) = Inr (remove_volume m k)"
| "apply_op m (RemoveVersion k t) =
     (case remove_volume_version m k t of
        Inl err \<Rightarrow> Inl err
      | Inr (lg, m') \<Rightarrow> Inr m')"
| "apply_op m (SelectSegmentation w d vf sv) =
     (case select_segmentation w m d vf sv of
        Inl err \<Rightarrow> Inl err
      | Inr (lg, ws, es, m') \<Rightarrow> Inr m')"

fun run_ops :: "manifest \<Rightarrow> op list \<Rightarrow> error + manifest" where
  "run_ops m [] = Inr m"
| "run_ops m (x # xs) =
     (case apply_op m x of Inl err \<Rightarrow> Inl err | Inr m' \<Rightarrow> run_ops m' xs)"

text \<open>An example run of operations.\<close>

definition ex_ops :: "op list" where
  "ex_ops =
     [AddVersion (\<lambda>s. ''h'') ''t'' ''t'' ''A'' 1 [] [] None None None,
      AddVersion (\<lambda>s. ''h'') ''t'' ''t'' ''A'' 2 [] [] None None None,
      Update (ex_world [''A.nii'', ''B.nii''] [''A-v1.nii'', ''A-v2.nii'', ''A-v3.nii'', ''B-v1.nii'']
                [''/d/vols/A.nii'', ''/d/segs/A-v3.nii'']) ''/d'',
      SelectSegmentation
        (ex_world [] [] [''/d/vols/A.nii'', ''/d/segs/A-v3.nii'']) ''/d'' ''A.nii'' ''v3'',
      RemoveVersion ''A'' ''v3'',
      RemoveVolume ''B'']"

section \<open>Canonical ids\<close>

text \<open>
  Ids as the code forms them for a token it writes: every record of a subject has a
  version token, and its id is the subject, a hyphen and the token.
\<close>

definition canonical_ids :: "volumes_dict \<Rightarrow> bool" where
  "canonical_ids vols \<longleftrightarrow>
     list_all (\<lambda>(k, e).
        list_all (\<lambda>r. is_version_token (version r) \<and> vid r = k @ ''-'' @ version r)
          (versions e)) vols"

text \<open>The records a dictionary of volumes holds for a subject.\<close>

definition dict_versions :: "volumes_dict \<Rightarrow> string \<Rightarrow> version_record list" where
  "dict_versions vols k = (case map_of vols k of None \<Rightarrow> [] | Some e \<Rightarrow> versions e)"

section \<open>Numerals and version tokens\<close>

lemma of_char_digit: "(d::nat) < 10 \<Longrightarrow> (of_char (char_of (48 + d)) :: nat) = 48 + d"
  by simp

lemma is_digit_char_of: "(d::nat) < 10 \<Longrightarrow> is_digit (char_of (48 + d))"
  by (simp add: is_digit_def)

lemma digit_val_char_of: "(d::nat) < 10 \<Longrightarrow> digit_val (char_of (48 + d)) = d"
  by (simp add: digit_val_def)

lemma str_nat_nonempty: "str_nat n \<noteq> []"
  by (subst str_nat.simps) simp

lemma str_nat_digits: "list_all is_digit (str_nat n)"
proof (induction n rule: str_nat.induct)
  case (1 n)
  show ?case
  proof (cases "n < 10")
    case True
    then show ?thesis by (subst str_nat.simps) (simp add: is_digit_char_of)
  next
    case False
    with 1 show ?thesis by (subst str_nat.simps) (simp add: is_digit_char_of)
  qed
qed

lemma digits_val_snoc: "digits_val (cs @ [c]) = 10 * digits_val cs + digit_val c"
  by (simp add: digits_val_def)

lemma digits_val_str_nat: "digits_val (str_nat n) = n"
proof (induction n rule: str_nat.induct)
  case (1 n)
  show ?case
  proof (cases "n < 10")
    case True
    then show ?thesis
      by (subst str_nat.simps) (simp add: digits_val_def digit_val_char_of)
  next
    case False
    with 1 have "digits_val (str_nat (n div 10)) = n div 10" by simp
    with False show ?thesis
      by (subst str_nat.simps) (simp add: digits_val_snoc digit_val_char_of)
  qed
qed

lemma digit_not_space: "is_digit c \<Longrightarrow> \<not> int_isspace c"
  by (auto simp: is_digit_def int_isspace_def)

lemma int_strip_digits:
  assumes "s \<noteq> []" "list_all is_digit s"
  shows "int_strip s = s"
proof -
  from assms have h: "\<not> int_isspace (hd s)" "\<not> int_isspace (last s)"
    by (auto simp: list_all_iff digit_not_space)
  from assms(1) h(1) have "dropWhile int_isspace s = s"
    by (cases s) auto
  moreover from assms(1) h(2) have "dropWhile int_isspace (rev s) = rev s"
    by (cases "rev s") (auto simp: last_rev hd_rev)
  ultimately show ?thesis
    by (simp add: int_strip_def)
qed

lemma digit_not_special:
  "is_digit c \<Longrightarrow> c \<noteq> CHR ''_'' \<and> c \<noteq> CHR ''+'' \<and> c \<noteq> CHR ''-''"
  by (auto simp: is_digit_def)

lemma digitpart_digits: "s \<noteq> [] \<Longrightarrow> list_all is_digit s \<Longrightarrow> digitpart s = Some s"
  by (induction s rule: digitpart.induct) (auto simp: digit_not_special)

lemma py_int_digits:
  assumes "s \<noteq> []" "list_all is_digit s"
  shows "py_int s = Some (int (digits_val s))"
proof -
  from assms obtain c r where s: "s = c # r" by (cases s) auto
  with assms have "is_digit c" by simp
  then have "c \<noteq> CHR ''+''" "c \<noteq> CHR ''-''" using digit_not_special by auto
  then show ?thesis
    using assms s by (simp add: py_int_def int_strip_digits digitpart_digits)
qed

lemma py_int_str_nat: "py_int (str_nat n) = Some (int n)"
  by (simp add: py_int_digits str_nat_nonempty str_nat_digits digits_val_str_nat)

lemma str_int_nat: "str_int (int n) = str_nat n"
  by (simp add: str_int_def)

lemma is_version_token_str_nat: "is_version_token (''v'' @ str_nat n)"
  by (simp add: is_version_token_def py_int_str_nat str_int_nat)

lemma version_tokenD:
  assumes "is_version_token (version r)"
  shows "py_int (drop 1 (version r)) = Some (version_number r)"
    and "version r = ''v'' @ str_int (version_number r)"
    and "0 \<le> version_number r"
  using assms
  by (auto simp: is_version_token_def version_number_def split: option.splits)

lemma latest_loop_tokens:
  assumes "\<forall>r\<in>set vs. is_version_token (version r)"
  shows "\<exists>res. latest_loop vs acc = Inr res \<and>
           (res = acc \<or> (\<exists>r\<in>set vs. res = Some (version_number r))) \<and>
           (\<forall>r\<in>set vs. \<exists>x. res = Some x \<and> version_number r \<le> x) \<and>
           (\<forall>a. acc = Some a \<longrightarrow> (\<exists>x. res = Some x \<and> a \<le> x))"
  using assms
proof (induction vs arbitrary: acc)
  case Nil
  then show ?case by simp
next
  case (Cons v vs)
  let ?n = "version_number v"
  let ?acc' = "(case acc of None \<Rightarrow> Some ?n | Some a \<Rightarrow> if ?n > a then Some ?n else Some a)"
  have pv: "py_int (drop 1 (version v)) = Some ?n"
    using Cons.prems version_tokenD(1)[of v] by simp
  from Cons.prems have "\<forall>r\<in>set vs. is_version_token (version r)" by simp
  from Cons.IH[OF this, of ?acc'] obtain res where
    r1: "latest_loop vs ?acc' = Inr res" and
    r2: "res = ?acc' \<or> (\<exists>r\<in>set vs. res = Some (version_number r))" and
    r3: "\<forall>r\<in>set vs. \<exists>x. res = Some x \<and> version_number r \<le> x" and
    r4: "\<forall>a. ?acc' = Some a \<longrightarrow> (\<exists>x. res = Some x \<and> a \<le> x)"
    by blast
  have eq: "latest_loop (v # vs) acc = Inr res"
    using pv r1 by simp
  have a2: "res = acc \<or> (\<exists>r\<in>set (v # vs). res = Some (version_number r))"
    using r2 by (cases acc) (auto split: if_splits)
  have a3: "\<forall>r\<in>set (v # vs). \<exists>x. res = Some x \<and> version_number r \<le> x"
    using r3 r4 by (cases acc) (auto split: if_splits)
  have a4: "\<forall>a. acc = Some a \<longrightarrow> (\<exists>x. res = Some x \<and> a \<le> x)"
    using r4 by (cases acc) (auto split: if_splits)
  from eq a2 a3 a4 show ?case by blast
qed

lemma latest_loop_nonempty:
  assumes "\<forall>r\<in>set vs. is_version_token (version r)" "vs \<noteq> []"
  shows "\<exists>r\<in>set vs. latest_loop vs None = Inr (Some (version_number r)) \<and>
           (\<forall>r'\<in>set vs. version_number r' \<le> version_number r)"
proof -
  from latest_loop_tokens[OF assms(1), of None] obtain res where
    r1: "latest_loop vs None = Inr res" and
    r2: "res = None \<or> (\<exists>r\<in>set vs. res = Some (version_number r))" and
    r3: "\<forall>r\<in>set vs. \<exists>x. res = Some x \<and> version_number r \<le> x"
    by blast
  from assms(2) obtain v where "v \<in> set vs" by (cases vs) auto
  with r3 have "res \<noteq> None" by auto
  with r2 obtain r where "r \<in> set vs" "res = Some (version_number r)" by auto
  with r1 r3 show ?thesis by auto
qed

section \<open>Removing and merging versions\<close>

lemma remove_volume_version_result:
  assumes present: "map_of (volumes m) k = Some e"
      and toks: "\<forall>r\<in>set (versions e). is_version_token (version r)"
  shows "\<exists>lg m'. remove_volume_version m k t = Inr (lg, m') \<and>
      (let kept = filter (\<lambda>r. version r \<noteq> t) (versions e) in
        (kept = [] \<longrightarrow> volumes m' = AList.delete k (volumes m)) \<and>
        (kept \<noteq> [] \<longrightarrow>
           (\<exists>sel. volumes m' =
                    AList.update k \<lparr>selected_version = sel, versions = kept\<rparr> (volumes m) \<and>
              (selected_version e \<noteq> Some t \<longrightarrow> sel = selected_version e) \<and>
              (selected_version e = Some t \<longrightarrow>
                 (\<exists>r\<in>set kept. sel = Some (version r) \<and>
                    (\<forall>r'\<in>set kept. version_number r' \<le> version_number r))))))"
proof -
  let ?kept = "filter (\<lambda>r. version r \<noteq> t) (versions e)"
  let ?e1 = "e\<lparr>versions := ?kept\<rparr>"
  let ?m1 = "m\<lparr>volumes := AList.update k ?e1 (volumes m)\<rparr>"
  have ktoks: "\<forall>r\<in>set ?kept. is_version_token (version r)" using toks by simp
  have look1: "map_of (volumes ?m1) k = Some ?e1" by (simp add: update_conv')
  show ?thesis
  proof (cases "selected_version e = Some t")
    case False
    then show ?thesis using present
      by (cases e)
         (auto simp: remove_volume_version_def Let_def get_selected_version_def
                  get_all_versions_def update_conv' delete_update_same)
  next
    case sel: True
    show ?thesis
    proof (cases "?kept = []")
      case True
      then have old: "versions e \<noteq> [] \<Longrightarrow> latest_loop ?kept None = Inr None" by simp
      show ?thesis using present sel True
        by (auto simp: remove_volume_version_def Let_def get_selected_version_def
                  get_all_versions_def get_latest_version_def set_selected_version_def
                  update_conv' delete_update_same)
    next
      case False
      then have ne: "versions e \<noteq> []" by auto
      from latest_loop_nonempty[OF ktoks False] obtain r where
        r: "r \<in> set ?kept" "latest_loop ?kept None = Inr (Some (version_number r))"
           "\<forall>r'\<in>set ?kept. version_number r' \<le> version_number r" by blast
      from r(1) ktoks have vr: "version r = ''v'' @ str_int (version_number r)"
        using version_tokenD(2) by blast
      have "remove_volume_version m k t =
          Inr (''Updated selected-version for '' @ k @ '' to latest version '' @ version r,
               m\<lparr>volumes := AList.update k \<lparr>selected_version = Some (version r), versions = ?kept\<rparr> (volumes m)\<rparr>)"
        using present sel False ne r(2) vr
        by (cases e)
           (simp add: remove_volume_version_def Let_def get_selected_version_def
                  get_all_versions_def get_latest_version_def set_selected_version_def
                  update_conv' fmt_opt_int_def)
      then show ?thesis using False sel r(1) r(3) by (auto simp: Let_def)
    qed
  qed
qed

lemma merge_entry_selected:
  assumes "map_of (volumes m) k = Some e"
  shows "\<exists>e'. map_of (volumes (snd (merge_entry item (lg, m)))) k = Some e' \<and>
              selected_version e' = selected_version e"
proof (cases item)
  case (Pair s nd)
  show ?thesis
  proof (cases "map_of (volumes m) s")
    case None
    with assms have "s \<noteq> k" by auto
    with None assms Pair show ?thesis
      by (simp add: merge_entry_def update_conv')
  next
    case (Some es)
    with assms Pair show ?thesis
      by (cases "s = k") (auto simp: merge_entry_def Let_def update_conv')
  qed
qed

lemma merge_new_volumes_selected:
  assumes "map_of (volumes m) k = Some e"
  shows "\<exists>e'. map_of (volumes (snd (merge_new_volumes new (lg, m)))) k = Some e' \<and>
              selected_version e' = selected_version e"
  using assms
proof (induction new arbitrary: lg m e)
  case Nil
  then show ?case by (simp add: merge_new_volumes_def)
next
  case (Cons item new)
  obtain lg1 m1 where st: "merge_entry item (lg, m) = (lg1, m1)"
    by (cases "merge_entry item (lg, m)")
  from merge_entry_selected[OF Cons.prems, of item lg] st obtain e1 where
    e1: "map_of (volumes m1) k = Some e1" "selected_version e1 = selected_version e"
    by auto
  from Cons.IH[OF e1(1), of lg1] e1(2) st show ?case
    by (simp add: merge_new_volumes_def)
qed

section \<open>Exporting\<close>

lemma concat_map_if:
  "concat (map (\<lambda>k. if P k then [f k] else []) ks) = map f (filter P ks)"
  by (induction ks) auto

lemma get_volume_seg_tuples_filter:
  "get_volume_seg_tuples m root =
     map (\<lambda>k. (k, path_join3 root (volume_path m) (k @ volume_extension m),
                 path_join3 root (label_path m)
                   (k @ ''-'' @ (case get_selected_version m k of None \<Rightarrow> [] | Some s \<Rightarrow> s)
                      @ label_extension m)))
       (filter (\<lambda>k. case get_selected_version m k of None \<Rightarrow> False | Some s \<Rightarrow> s \<noteq> [])
          (map fst (volumes m)))"
proof -
  have "get_volume_seg_tuples m root =
    concat (map (\<lambda>k. if (case get_selected_version m k of None \<Rightarrow> False | Some s \<Rightarrow> s \<noteq> [])
       then [(k, path_join3 root (volume_path m) (k @ volume_extension m),
                 path_join3 root (label_path m)
                   (k @ ''-'' @ (case get_selected_version m k of None \<Rightarrow> [] | Some s \<Rightarrow> s)
                      @ label_extension m))] else []) (map fst (volumes m)))"
    unfolding get_volume_seg_tuples_def
    by (rule arg_cong[where f = concat], rule map_cong) (auto split: option.splits)
  then show ?thesis by (simp only: concat_map_if)
qed

section \<open>The operations keep the entries well formed\<close>

lemma set_update_subset: "set (AList.update k v al) \<subseteq> insert (k, v) (set al)"
  by (induction al) auto

lemma set_delete_subset: "set (AList.delete k al) \<subseteq> set al"
  by (induction al) auto

lemma entries_update:
  assumes "list_all (\<lambda>(k, e). P e) al" "P v"
  shows "list_all (\<lambda>(k, e). P e) (AList.update k v al)"
  using assms set_update_subset[of k v al] by (fastforce simp: list_all_iff)

lemma entries_delete:
  assumes "list_all (\<lambda>(k, e). P e) al"
  shows "list_all (\<lambda>(k, e). P e) (AList.delete k al)"
  using assms set_delete_subset[of k al] by (fastforce simp: list_all_iff)

lemma entries_lookup:
  assumes "list_all (\<lambda>(k, e). P e) al" "map_of al k = Some e"
  shows "P e"
  using assms map_of_SomeD[of al k e] by (fastforce simp: list_all_iff)

lemma manifest_ok_I2: "manifest_ok m \<Longrightarrow> invariant_I2 m"
  by (auto simp: manifest_ok_def invariant_I2_def entry_ok_def list_all_iff)

lemma remove_volume_version_ok:
  assumes ok: "manifest_ok m"
  shows "\<exists>lg m'. remove_volume_version m k t = Inr (lg, m') \<and> manifest_ok m'"
proof (cases "map_of (volumes m) k")
  case None
  with ok show ?thesis by (simp add: remove_volume_version_def)
next
  case (Some e)
  from ok Some have eok: "entry_ok e"
    unfolding manifest_ok_def by (rule entries_lookup)
  then have toks: "\<forall>r\<in>set (versions e). is_version_token (version r)"
    by (simp add: entry_ok_def list_all_iff)
  let ?kept = "filter (\<lambda>r. version r \<noteq> t) (versions e)"
  from remove_volume_version_result[OF Some toks, of t] obtain lg m' where
    r: "remove_volume_version m k t = Inr (lg, m')" and
    r1: "?kept = [] \<longrightarrow> volumes m' = AList.delete k (volumes m)" and
    r2: "?kept \<noteq> [] \<longrightarrow>
           (\<exists>sel. volumes m' =
                    AList.update k \<lparr>selected_version = sel, versions = ?kept\<rparr> (volumes m) \<and>
              (selected_version e \<noteq> Some t \<longrightarrow> sel = selected_version e) \<and>
              (selected_version e = Some t \<longrightarrow>
                 (\<exists>r\<in>set ?kept. sel = Some (version r) \<and>
                    (\<forall>r'\<in>set ?kept. version_number r' \<le> version_number r))))"
    by (auto simp: Let_def)
  have "manifest_ok m'"
  proof (cases "?kept = []")
    case True
    with r1 ok show ?thesis by (simp add: manifest_ok_def entries_delete)
  next
    case False
    with r2 obtain sel where
      v: "volumes m' = AList.update k \<lparr>selected_version = sel, versions = ?kept\<rparr> (volumes m)" and
      s1: "selected_version e \<noteq> Some t \<longrightarrow> sel = selected_version e" and
      s2: "selected_version e = Some t \<longrightarrow> (\<exists>r\<in>set ?kept. sel = Some (version r))"
      by blast
    have "selection_ok \<lparr>selected_version = sel, versions = ?kept\<rparr>"
    proof (cases "selected_version e = Some t")
      case True
      with s2 show ?thesis by (auto simp: selection_ok_def list_ex_iff)
    next
      case False
      with s1 eok show ?thesis
        by (auto simp: selection_ok_def entry_ok_def list_ex_iff split: option.splits)
    qed
    with toks have "entry_ok \<lparr>selected_version = sel, versions = ?kept\<rparr>"
      by (simp add: entry_ok_def list_all_iff)
    with ok v show ?thesis by (simp add: manifest_ok_def entries_update)
  qed
  with r show ?thesis by blast
qed

lemma remove_seg_everywhere_ok:
  "manifest_ok m \<Longrightarrow> remove_seg_everywhere seg_id ks (lg, m) = Inr (lg', m') \<Longrightarrow> manifest_ok m'"
proof (induction ks arbitrary: lg m)
  case Nil
  then show ?case by simp
next
  case (Cons k ks)
  from remove_volume_version_ok[OF Cons.prems(1),
         of k "''v'' @ fmt_opt_int (extract_version_number seg_id k)"]
  obtain msg m1 where
    r: "remove_volume_version m k (''v'' @ fmt_opt_int (extract_version_number seg_id k))
          = Inr (msg, m1)" and ok1: "manifest_ok m1" by blast
  from Cons.prems(2) r obtain lg1 where
    "remove_seg_everywhere seg_id ks (lg1, m1) = Inr (lg', m')"
    by (auto simp: Let_def split: if_splits)
  from Cons.IH[OF ok1 this] show ?case .
qed

lemma remove_segs_ok:
  "manifest_ok m \<Longrightarrow> remove_segs ids (lg, m) = Inr (lg', m') \<Longrightarrow> manifest_ok m'"
proof (induction ids arbitrary: lg m)
  case Nil
  then show ?case by simp
next
  case (Cons i ids)
  from Cons.prems(2) obtain lg1 m1 where
    a: "remove_seg_everywhere i (map fst (volumes m)) (lg, m) = Inr (lg1, m1)" and
    b: "remove_segs ids (lg1, m1) = Inr (lg', m')"
    by (auto split: sum.splits)
  from remove_seg_everywhere_ok[OF Cons.prems(1) a] have "manifest_ok m1" .
  from Cons.IH[OF this b] show ?case .
qed

lemma merge_entry_ok:
  assumes "manifest_ok m" "entry_ok (snd item)"
  shows "manifest_ok (snd (merge_entry item (lg, m)))"
proof (cases item)
  case (Pair s nd)
  with assms(2) have nd: "entry_ok nd" by simp
  show ?thesis
  proof (cases "map_of (volumes m) s")
    case None
    with Pair nd assms(1) show ?thesis
      by (simp add: merge_entry_def manifest_ok_def entries_update)
  next
    case (Some e)
    from assms(1) Some have eok: "entry_ok e"
      unfolding manifest_ok_def by (rule entries_lookup)
    let ?fresh = "filter (\<lambda>v. version v \<notin> set (get_all_version_strings m s)) (versions nd)"
    from eok nd have "entry_ok (e\<lparr>versions := versions e @ ?fresh\<rparr>)"
      by (auto simp: entry_ok_def selection_ok_def list_all_iff list_ex_iff split: option.splits)
    with Pair Some assms(1) show ?thesis
      by (simp add: merge_entry_def Let_def manifest_ok_def entries_update)
  qed
qed

lemma merge_new_volumes_ok:
  assumes "manifest_ok m" "list_all (\<lambda>(k, e). entry_ok e) new"
  shows "manifest_ok (snd (merge_new_volumes new (lg, m)))"
  using assms
proof (induction new arbitrary: lg m)
  case Nil
  then show ?case by (simp add: merge_new_volumes_def)
next
  case (Cons item new)
  obtain lg1 m1 where st: "merge_entry item (lg, m) = (lg1, m1)"
    by (cases "merge_entry item (lg, m)")
  from Cons.prems(2) have "entry_ok (snd item)" by (cases item) simp
  from merge_entry_ok[OF Cons.prems(1) this, of lg] st have ok1: "manifest_ok m1" by simp
  from Cons.prems(2) have "list_all (\<lambda>(k, e). entry_ok e) new" by simp
  from Cons.IH[OF ok1 this, of lg1] st show ?case by (simp add: merge_new_volumes_def)
qed

lemma remove_volume_ok: "manifest_ok m \<Longrightarrow> manifest_ok (remove_volume m k)"
  by (simp add: remove_volume_def manifest_ok_def entries_delete split: option.splits)

lemma remove_volumes_ok: "manifest_ok m \<Longrightarrow> manifest_ok (snd (remove_volumes ks (lg, m)))"
proof (induction ks arbitrary: lg m)
  case Nil
  then show ?case by (simp add: remove_volumes_def)
next
  case (Cons k ks)
  from Cons.IH[OF remove_volume_ok[OF Cons.prems, of k]] show ?case
    by (simp add: remove_volumes_def)
qed

lemma update_index_ok:
  assumes "manifest_ok m" "list_all (\<lambda>(k, e). entry_ok e) new"
      and "update_index so m new = Inr (lg, m')"
  shows "manifest_ok m'"
proof -
  obtain lg1 m1 where s1: "merge_new_volumes new ([], m) = (lg1, m1)"
    by (cases "merge_new_volumes new ([], m)")
  from merge_new_volumes_ok[OF assms(1,2), of "[]"] s1 have ok1: "manifest_ok m1" by simp
  let ?rv = "so (filter (\<lambda>k. k \<notin> set (map fst new)) (remdups (map fst (volumes m))))"
  obtain lg2 m2 where s2: "remove_volumes ?rv (lg1, m1) = (lg2, m2)"
    by (cases "remove_volumes ?rv (lg1, m1)")
  from remove_volumes_ok[OF ok1, of ?rv lg1] s2 have ok2: "manifest_ok m2" by simp
  from assms(3) s1 s2 have "remove_segs
      (so (filter (\<lambda>i. i \<notin> set (all_version_ids new)) (remdups (all_version_ids (volumes m)))))
      (lg2, m2) = Inr (lg, m')"
    by (simp add: update_index_def Let_def)
  from remove_segs_ok[OF ok2 this] show ?thesis .
qed

lemma extract_version_number_nat:
  assumes "extract_version_number seg vol = Some n"
  shows "\<exists>k. n = int k"
  using assms
  by (auto simp: extract_version_number_def Let_def py_int_digits split: if_splits)

lemma match_versions_from_tokens:
  assumes "match_versions_from w sp sext vol j tar acc = Inr vs"
      and "\<forall>r\<in>set acc. is_version_token (version r)"
  shows "\<forall>r\<in>set vs. is_version_token (version r)"
  using assms
proof (induction tar arbitrary: j acc)
  case Nil
  then show ?case by simp
next
  case (Cons seg rest)
  show ?case
  proof (cases "startswith seg (vol @ ''-v'')")
    case False
    with Cons.prems(1) have "match_versions_from w sp sext vol (Suc j) rest acc = Inr vs"
      by simp
    from Cons.IH[OF this Cons.prems(2)] show ?thesis .
  next
    case True
    show ?thesis
    proof (cases "extract_version_number seg vol")
      case None
      with True Cons.prems(1) have
        "match_versions_from w sp sext vol (Suc j) rest acc = Inr vs" by simp
      from Cons.IH[OF this Cons.prems(2)] show ?thesis .
    next
      case (Some n)
      from extract_version_number_nat[OF Some] obtain k where k: "n = int k" by blast
      from True Some Cons.prems(1) obtain h where
        h: "hash_image w (path_join sp (seg @ sext)) = Some h"
        by (cases "hash_image w (path_join sp (seg @ sext))") auto
      let ?r = "\<lparr>vid = seg, vhash = h, ts = clock w vol j, author = [], vnotes = [],
                 tags = [], version = ''v'' @ str_int n, last_updated = clock w vol j\<rparr>"
      from True Some h Cons.prems(1) have
        step: "match_versions_from w sp sext vol (Suc j) rest (acc @ [?r]) = Inr vs" by simp
      have "is_version_token (version ?r)"
        using is_version_token_str_nat[of k] k by (simp add: str_int_nat)
      with Cons.prems(2) have "\<forall>r\<in>set (acc @ [?r]). is_version_token (version r)"
        by auto
      from Cons.IH[OF step this] show ?thesis .
    qed
  qed
qed

lemma match_versions_tokens:
  assumes "match_versions w sp sext vol tar = Inr vs" "r \<in> set vs"
  shows "is_version_token (version r)"
  using match_versions_from_tokens[of w sp sext vol 0 tar "[]" vs] assms
  by (simp add: match_versions_def)

lemma index_volume_ok:
  assumes "list_all (\<lambda>(k, e). entry_ok e) idx"
      and "index_volume w sp sext tar vol idx = Inr idx'"
  shows "list_all (\<lambda>(k, e). entry_ok e) idx'"
proof -
  from assms(2) obtain vs where vs: "match_versions w sp sext vol tar = Inr vs"
    by (cases "match_versions w sp sext vol tar") (auto simp: index_volume_def)
  show ?thesis
  proof (cases "vs = []")
    case True
    with assms vs show ?thesis by (simp add: index_volume_def)
  next
    case False
    let ?vs = "sort_key version_number vs"
    from False have ne: "?vs \<noteq> []"
      by (metis length_sort list.size(3) length_0_conv)
    then have "last ?vs \<in> set ?vs" by (rule last_in_set)
    moreover have "\<forall>r\<in>set ?vs. is_version_token (version r)"
      using match_versions_tokens[OF vs] by simp
    ultimately have
      "entry_ok \<lparr>selected_version = Some (version (last ?vs)), versions = ?vs\<rparr>"
      by (auto simp: entry_ok_def selection_ok_def list_all_iff list_ex_iff)
    moreover from assms(2) vs False have
      "idx' = AList.update vol \<lparr>selected_version = Some (version (last ?vs)),
                                versions = ?vs\<rparr> idx"
      by (simp add: index_volume_def Let_def)
    ultimately show ?thesis using assms(1) by (simp add: entries_update)
  qed
qed

lemma index_volumes_ok:
  "list_all (\<lambda>(k, e). entry_ok e) idx \<Longrightarrow>
   index_volumes w sp sext tar vols idx = Inr idx' \<Longrightarrow>
   list_all (\<lambda>(k, e). entry_ok e) idx'"
proof (induction vols arbitrary: idx)
  case Nil
  then show ?case by simp
next
  case (Cons vol vols)
  from Cons.prems(2) obtain idx1 where
    a: "index_volume w sp sext tar vol idx = Inr idx1" and
    b: "index_volumes w sp sext tar vols idx1 = Inr idx'"
    by (cases "index_volume w sp sext tar vol idx") auto
  from Cons.IH[OF index_volume_ok[OF Cons.prems(1) a] b] show ?case .
qed

lemma verify_volseg_match_ok:
  assumes "verify_volseg_match w vp vext sp sext = Inr (lg, ws, es, idx)"
  shows "list_all (\<lambda>(k, e). entry_ok e) idx"
proof -
  from assms obtain tar vols where "index_volumes w sp sext tar vols [] = Inr idx"
    by (auto simp: verify_volseg_match_def Let_def
             split: prod.splits option.splits if_splits sum.splits)
  from index_volumes_ok[OF _ this] show ?thesis by simp
qed

lemma get_volseg_matches_ok:
  assumes "get_volseg_matches w m d = Inr idx"
  shows "list_all (\<lambda>(k, e). entry_ok e) idx"
proof -
  from assms obtain lg ws es where
    "verify_volseg_match w (path_join d (volume_path m)) (volume_extension m)
       (path_join d (label_path m)) (label_extension m) = Inr (lg, ws, es, idx)"
    by (auto simp: get_volseg_matches_def split: sum.splits)
  then show ?thesis by (rule verify_volseg_match_ok)
qed

lemma add_volume_version_ok:
  assumes "manifest_ok m" "is_version_token ver"
  shows "manifest_ok (snd (add_volume_version h n1 n2 m k ver a nt tg tsa lua))"
proof (cases "map_of (volumes m) k")
  case None
  have "entry_ok \<lparr>selected_version = Some ver, versions = [r\<lparr>version := ver\<rparr>]\<rparr>" for r :: version_record
    using assms(2) by (simp add: entry_ok_def selection_ok_def)
  with None assms(1) show ?thesis
    by (simp add: add_volume_version_def Let_def update_conv' manifest_ok_def entries_update
          entry_ok_def selection_ok_def assms(2))
next
  case (Some e)
  from assms(1) Some have eok: "entry_ok e"
    unfolding manifest_ok_def by (rule entries_lookup)
  then have "entry_ok (e\<lparr>versions := versions e @ [r]\<rparr>)" if "version r = ver" for r
    using that assms(2)
    by (auto simp: entry_ok_def selection_ok_def list_all_iff list_ex_iff split: option.splits)
  with Some assms(1) show ?thesis
    by (simp add: add_volume_version_def Let_def manifest_ok_def entries_update)
qed

lemma set_selected_version_ok:
  assumes "manifest_ok m" "t \<in> set (get_all_version_strings m k)"
  shows "manifest_ok (set_selected_version m k (Some t))"
proof (cases "map_of (volumes m) k")
  case None
  with assms(1) show ?thesis by (simp add: set_selected_version_def)
next
  case (Some e)
  from assms(1) Some have eok: "entry_ok e"
    unfolding manifest_ok_def by (rule entries_lookup)
  with assms(2) Some have "entry_ok (e\<lparr>selected_version := Some t\<rparr>)"
    by (auto simp: entry_ok_def selection_ok_def get_all_version_strings_def
          get_all_versions_def list_ex_iff)
  with Some assms(1) show ?thesis
    by (simp add: set_selected_version_def manifest_ok_def entries_update)
qed

lemma select_segmentation_ok:
  assumes "manifest_ok m" "select_segmentation w m d vf sv = Inr (lg, ws, es, m')"
  shows "manifest_ok m'"
proof -
  let ?sv = "py_strip sv"
  let ?vb = "slice_off_end vf (length (volume_extension m))"
  from remove_volume_version_ok[OF assms(1), of ?vb ?sv] obtain l1 m1 where
    r: "remove_volume_version m ?vb ?sv = Inr (l1, m1)" "manifest_ok m1" by blast
  have s: "?sv \<in> set (get_all_version_strings m ?vb) \<Longrightarrow>
        manifest_ok (set_selected_version m ?vb (Some ?sv))"
    by (rule set_selected_version_ok[OF assms(1)])
  from assms(2) have "m' = m \<or> m' = remove_volume m ?vb \<or> m' = m1 \<or>
      (?sv \<in> set (get_all_version_strings m ?vb) \<and> m' = set_selected_version m ?vb (Some ?sv))"
    using r(1)
    by (auto simp: select_segmentation_def Let_def split: if_splits sum.splits)
  with assms(1) r(2) s remove_volume_ok[OF assms(1), of ?vb] show ?thesis by auto
qed

lemma apply_op_ok:
  assumes "manifest_ok m" "apply_op m x = Inr m'"
  shows "manifest_ok m'"
proof (cases x)
  case (AddVersion h n1 n2 k n a nt tg tsa lua)
  with assms add_volume_version_ok[OF assms(1) is_version_token_str_nat[of n]]
  show ?thesis by (auto simp: str_int_nat)
next
  case (Update w d)
  with assms(2) obtain idx lg where
    g: "get_volseg_matches w m d = Inr idx" and
    u: "update_index (set_order w) m idx = Inr (lg, m')"
    by (auto split: sum.splits)
  from update_index_ok[OF assms(1) get_volseg_matches_ok[OF g] u] show ?thesis .
next
  case (RemoveVolume k)
  with assms show ?thesis by (auto simp: remove_volume_ok)
next
  case (RemoveVersion k t)
  with assms remove_volume_version_ok[OF assms(1), of k t] show ?thesis
    by (auto split: sum.splits)
next
  case (SelectSegmentation w d vf sv)
  with assms(2) obtain lg ws es where "select_segmentation w m d vf sv = Inr (lg, ws, es, m')"
    by (auto split: sum.splits)
  from select_segmentation_ok[OF assms(1) this] show ?thesis .
qed

lemma run_ops_ok: "manifest_ok m \<Longrightarrow> run_ops m ops = Inr m' \<Longrightarrow> manifest_ok m'"
proof (induction ops arbitrary: m)
  case Nil
  then show ?case by simp
next
  case (Cons x ops)
  from Cons.prems(2) obtain m1 where a: "apply_op m x = Inr m1" and b: "run_ops m1 ops = Inr m'"
    by (auto split: sum.splits)
  from Cons.IH[OF apply_op_ok[OF Cons.prems(1) a] b] show ?case .
qed

section \<open>The matcher\<close>

lemma digit_not_newline: "is_digit c \<Longrightarrow> c \<noteq> CHR 0x0A"
  by (auto simp: is_digit_def)

lemma names_version_extract:
  assumes "names_version seg X"
  shows "extract_version_number seg X = Some (int (digits_val (drop (length X + 2) seg)))"
proof -
  let ?rest = "drop (length X + 2) seg"
  from assms have st: "startswith seg (X @ ''-v'')" and ne: "?rest \<noteq> []"
    and dg: "list_all is_digit ?rest"
    by (auto simp: names_version_def)
  from ne have "last ?rest \<in> set ?rest" by (rule last_in_set)
  with dg have "is_digit (last ?rest)" unfolding list_all_iff by blast
  then have "last ?rest \<noteq> CHR 0x0A" by (rule digit_not_newline)
  with st ne dg show ?thesis
    by (simp add: extract_version_number_def Let_def py_int_digits)
qed

lemma extract_names_version:
  assumes "extract_version_number seg X = Some n" "seg = [] \<or> last seg \<noteq> CHR 0x0A"
  shows "names_version seg X"
proof -
  let ?rest = "drop (length X + 2) seg"
  from assms(1) have st: "startswith seg (X @ ''-v'')"
    by (auto simp: extract_version_number_def split: if_splits)
  have "?rest \<noteq> [] \<Longrightarrow> last ?rest = last seg" by simp
  with assms(2) have "\<not> (?rest \<noteq> [] \<and> last ?rest = CHR 0x0A)" by auto
  with assms(1) st have "?rest \<noteq> [] \<and> list_all is_digit ?rest"
    by (auto simp: extract_version_number_def Let_def split: if_splits)
  with st show ?thesis by (simp add: names_version_def)
qed

lemma extract_startswith:
  "extract_version_number seg X = Some n \<Longrightarrow> startswith seg (X @ ''-v'')"
  by (auto simp: extract_version_number_def split: if_splits)

section \<open>Reconciling twice\<close>

lemma v_not_digit: "\<not> is_digit CHR ''v''"
  by (simp add: is_digit_def)

lemma digits_suffix_unique:
  assumes "A @ ''-v'' @ ds = B @ ''-v'' @ es" "list_all is_digit ds" "list_all is_digit es"
  shows "A = B \<and> ds = es"
proof -
  have r: "takeWhile is_digit (rev (X @ ''-v'' @ xs)) = rev xs" if "list_all is_digit xs"
    for X xs
  proof -
    have "rev (X @ ''-v'' @ xs) = rev xs @ (CHR ''v'' # CHR ''-'' # rev X)" by simp
    moreover have "takeWhile is_digit (rev xs @ (CHR ''v'' # CHR ''-'' # rev X)) =
        rev xs @ takeWhile is_digit (CHR ''v'' # CHR ''-'' # rev X)"
      using that by (intro takeWhile_append2) (simp add: list_all_iff)
    moreover have "takeWhile is_digit (CHR ''v'' # CHR ''-'' # rev X) = []"
      using v_not_digit by simp
    ultimately show ?thesis by simp
  qed
  from assms(1) have "takeWhile is_digit (rev (A @ ''-v'' @ ds)) =
      takeWhile is_digit (rev (B @ ''-v'' @ es))" by simp
  with r[OF assms(2), of A] r[OF assms(3), of B] have "ds = es" by simp
  with assms(1) show ?thesis by simp
qed

lemma extract_decompose:
  assumes "extract_version_number seg X = Some n" "seg \<noteq> []" "is_digit (last seg)"
  shows "\<exists>ds. seg = X @ ''-v'' @ ds \<and> ds \<noteq> [] \<and> list_all is_digit ds \<and> n = int (digits_val ds)"
proof -
  from assms(3) have "last seg \<noteq> CHR 0x0A" by (rule digit_not_newline)
  with assms(1) have nv: "names_version seg X" by (intro extract_names_version) auto
  let ?ds = "drop (length X + 2) seg"
  from nv have st: "take (length (X @ ''-v'')) seg = X @ ''-v''" and
      d: "?ds \<noteq> []" "list_all is_digit ?ds"
    by (auto simp: names_version_def startswith_def)
  have "seg = take (length (X @ ''-v'')) seg @ drop (length (X @ ''-v'')) seg"
    by (simp only: append_take_drop_id)
  with st have "seg = X @ ''-v'' @ ?ds" by simp
  moreover from names_version_extract[OF nv] assms(1) have "n = int (digits_val ?ds)" by simp
  ultimately show ?thesis using d by blast
qed

lemma extract_canonical_unique:
  assumes "extract_version_number (X0 @ ''-v'' @ str_nat k0) X = Some n"
  shows "X = X0 \<and> n = int k0"
proof -
  let ?seg = "X0 @ ''-v'' @ str_nat k0"
  have ne: "?seg \<noteq> []" by simp
  have "last ?seg = last (str_nat k0)" using str_nat_nonempty[of k0] by simp
  moreover have "last (str_nat k0) \<in> set (str_nat k0)"
    using str_nat_nonempty by (rule last_in_set)
  ultimately have "is_digit (last ?seg)" using str_nat_digits[of k0] by (simp add: list_all_iff)
  from extract_decompose[OF assms ne this] obtain ds where
    ds: "?seg = X @ ''-v'' @ ds" "list_all is_digit ds" "n = int (digits_val ds)" by blast
  from digits_suffix_unique[OF ds(1) str_nat_digits ds(2)] have "X0 = X" "str_nat k0 = ds"
    by auto
  with ds(3) digits_val_str_nat[of k0] show ?thesis by simp
qed

lemma extract_canonical:
  "extract_version_number (X @ ''-v'' @ str_nat k) X = Some (int k)"
proof -
  have "names_version (X @ ''-v'' @ str_nat k) X"
    by (simp add: names_version_def startswith_def str_nat_nonempty
          str_nat_digits)
  from names_version_extract[OF this] show ?thesis by (simp add: digits_val_str_nat)
qed

lemma version_token_form:
  assumes "is_version_token t"
  shows "\<exists>k. t = ''v'' @ str_nat k"
proof -
  from assms obtain n where "0 \<le> n" "t = ''v'' @ str_int n"
    by (auto simp: is_version_token_def split: option.splits)
  then have "t = ''v'' @ str_nat (nat n)" by (simp add: str_int_def)
  then show ?thesis by blast
qed

lemma str_nat_not_None: "str_nat k \<noteq> ''None''"
proof
  assume "str_nat k = ''None''"
  with str_nat_digits[of k] have "is_digit CHR ''N''" by simp
  then show False by (simp add: is_digit_def)
qed

lemma fmt_token_eq:
  assumes "''v'' @ fmt_opt_int x = ''v'' @ str_nat k"
  shows "\<exists>n. x = Some n \<and> str_int n = str_nat k"
  using assms str_nat_not_None[of k] by (cases x) (auto simp: fmt_opt_int_def)

lemma length_delete_less:
  "k \<in> fst ` set al \<Longrightarrow> length (AList.delete k al) < length al"
proof (induction al)
  case Nil
  then show ?case by simp
next
  case (Cons p al)
  show ?case
  proof (cases "fst p = k")
    case True
    have "length (AList.delete k al) \<le> length al" by (rule length_delete_le)
    with True show ?thesis by (cases p) auto
  next
    case False
    with Cons show ?thesis by (cases p) auto
  qed
qed

lemma remove_volume_version_absent:
  "map_of (volumes m) k = None \<Longrightarrow> remove_volume_version m k t = Inr ([], m)"
  by (simp add: remove_volume_version_def)

lemma remove_volume_version_shape:
  assumes "map_of (volumes m) k = Some e" "remove_volume_version m k t = Inr (msg, m')"
  shows "(filter (\<lambda>r. version r \<noteq> t) (versions e) \<noteq> [] \<and>
          (\<exists>sel. m' = m\<lparr>volumes := AList.update k
             \<lparr>selected_version = sel, versions = filter (\<lambda>r. version r \<noteq> t) (versions e)\<rparr>
             (volumes m)\<rparr>)) \<or>
         (filter (\<lambda>r. version r \<noteq> t) (versions e) = [] \<and>
          m' = m\<lparr>volumes := AList.delete k (volumes m)\<rparr>)"
proof (cases e)
  case (fields sel0 vs0)
  show ?thesis
  proof (cases "filter (\<lambda>r. version r \<noteq> t) vs0 = []")
    case True
    with assms fields show ?thesis
      by (auto simp: remove_volume_version_def Let_def get_selected_version_def
            get_all_versions_def get_latest_version_def set_selected_version_def
            update_conv' delete_update_same split: if_splits sum.splits)
  next
    case False
    with assms fields show ?thesis
      by (auto simp: remove_volume_version_def Let_def get_selected_version_def
            get_all_versions_def get_latest_version_def set_selected_version_def
            update_conv' split: if_splits sum.splits)
  qed
qed

lemma remove_volume_version_step:
  assumes "remove_volume_version m k t = Inr (msg, m')"
      and "length (volumes m') = length (volumes m)"
  shows "map fst (volumes m') = map fst (volumes m) \<and>
         m' = m\<lparr>volumes := volumes m'\<rparr> \<and>
         (\<forall>X. dict_versions (volumes m') X =
            (if X = k then filter (\<lambda>r. version r \<noteq> t) (dict_versions (volumes m) X)
             else dict_versions (volumes m) X))"
proof (cases "map_of (volumes m) k")
  case None
  with assms(1) have "m' = m" by (simp add: remove_volume_version_absent)
  with None show ?thesis by (simp add: dict_versions_def)
next
  case (Some e)
  then have kin: "k \<in> fst ` set (volumes m)" by (metis map_of_eq_None_iff option.distinct(1))
  from remove_volume_version_shape[OF Some assms(1)] show ?thesis
  proof (elim disjE conjE exE)
    fix sel
    assume m': "m' = m\<lparr>volumes := AList.update k
             \<lparr>selected_version = sel, versions = filter (\<lambda>r. version r \<noteq> t) (versions e)\<rparr>
             (volumes m)\<rparr>"
    from kin have "map fst (volumes m') = map fst (volumes m)"
      by (simp add: m' update_keys)
    with Some show ?thesis by (simp add: m' dict_versions_def update_conv')
  next
    assume "m' = m\<lparr>volumes := AList.delete k (volumes m)\<rparr>"
    with length_delete_less[OF kin] assms(2) show ?thesis by simp
  qed
qed

lemma remove_seg_everywhere_effect:
  assumes "remove_seg_everywhere seg_id ks (lg, m) = Inr (lg', m')"
  shows "map fst (volumes m') = map fst (volumes m) \<and>
         m' = m\<lparr>volumes := volumes m'\<rparr> \<and>
         (\<forall>X. dict_versions (volumes m') X =
            (if X \<in> set ks
             then filter (\<lambda>r. version r \<noteq> ''v'' @ fmt_opt_int (extract_version_number seg_id X))
                    (dict_versions (volumes m) X)
             else dict_versions (volumes m) X))"
  using assms
proof (induction ks arbitrary: lg m)
  case Nil
  then show ?case by simp
next
  case (Cons k ks)
  let ?t = "\<lambda>X. ''v'' @ fmt_opt_int (extract_version_number seg_id X)"
  from Cons.prems obtain msg m1 lg1 where
    s: "remove_volume_version m k (?t k) = Inr (msg, m1)" and
    len: "length (volumes m1) = length (volumes m)" and
    rest: "remove_seg_everywhere seg_id ks (lg1, m1) = Inr (lg', m')"
    by (auto simp: Let_def split: sum.splits if_splits)
  from remove_volume_version_step[OF s len] have
    a1: "map fst (volumes m1) = map fst (volumes m)" and
    a2: "m1 = m\<lparr>volumes := volumes m1\<rparr>" and
    a3: "\<And>X. dict_versions (volumes m1) X =
            (if X = k then filter (\<lambda>r. version r \<noteq> ?t k) (dict_versions (volumes m) X)
             else dict_versions (volumes m) X)"
    by blast+
  from Cons.IH[OF rest] have
    b1: "map fst (volumes m') = map fst (volumes m1)" and
    b2: "m' = m1\<lparr>volumes := volumes m'\<rparr>" and
    b3: "\<And>X. dict_versions (volumes m') X =
            (if X \<in> set ks then filter (\<lambda>r. version r \<noteq> ?t X) (dict_versions (volumes m1) X)
             else dict_versions (volumes m1) X)"
    by blast+
  have c1: "map fst (volumes m') = map fst (volumes m)" using a1 b1 by simp
  have c2: "m' = m\<lparr>volumes := volumes m'\<rparr>"
    by (subst b2, subst a2) simp
  have c3: "dict_versions (volumes m') X =
            (if X \<in> set (k # ks) then filter (\<lambda>r. version r \<noteq> ?t X) (dict_versions (volumes m) X)
             else dict_versions (volumes m) X)" for X
    by (simp add: a3 b3)
  from c1 c2 c3 show ?case by blast
qed

lemma dict_versions_absent:
  "X \<notin> set (map fst vols) \<Longrightarrow> dict_versions vols X = []"
  by (simp add: dict_versions_def map_of_eq_None_iff[THEN iffD2])

lemma remove_segs_effect:
  assumes "remove_segs ids (lg, m) = Inr (lg', m')"
  shows "map fst (volumes m') = map fst (volumes m) \<and>
         m' = m\<lparr>volumes := volumes m'\<rparr> \<and>
         (\<forall>X. dict_versions (volumes m') X =
            filter (\<lambda>r. \<forall>i\<in>set ids.
                      version r \<noteq> ''v'' @ fmt_opt_int (extract_version_number i X))
              (dict_versions (volumes m) X))"
  using assms
proof (induction ids arbitrary: lg m)
  case Nil
  then show ?case by simp
next
  case (Cons i ids)
  let ?t = "\<lambda>i X. ''v'' @ fmt_opt_int (extract_version_number i X)"
  from Cons.prems obtain lg1 m1 where
    s: "remove_seg_everywhere i (map fst (volumes m)) (lg, m) = Inr (lg1, m1)" and
    rest: "remove_segs ids (lg1, m1) = Inr (lg', m')"
    by (auto split: sum.splits)
  from remove_seg_everywhere_effect[OF s] have
    a1: "map fst (volumes m1) = map fst (volumes m)" and
    a2: "m1 = m\<lparr>volumes := volumes m1\<rparr>" and
    a3: "\<And>X. dict_versions (volumes m1) X =
            (if X \<in> set (map fst (volumes m))
             then filter (\<lambda>r. version r \<noteq> ?t i X) (dict_versions (volumes m) X)
             else dict_versions (volumes m) X)"
    by blast+
  have a3': "dict_versions (volumes m1) X =
      filter (\<lambda>r. version r \<noteq> ?t i X) (dict_versions (volumes m) X)" for X
    using a3[of X] dict_versions_absent[of X "volumes m"] by (cases "X \<in> set (map fst (volumes m))") auto
  from Cons.IH[OF rest] have
    b1: "map fst (volumes m') = map fst (volumes m1)" and
    b2: "m' = m1\<lparr>volumes := volumes m'\<rparr>" and
    b3: "\<And>X. dict_versions (volumes m') X =
            filter (\<lambda>r. \<forall>j\<in>set ids. version r \<noteq> ?t j X) (dict_versions (volumes m1) X)"
    by blast+
  have c1: "map fst (volumes m') = map fst (volumes m)" using a1 b1 by simp
  have c2: "m' = m\<lparr>volumes := volumes m'\<rparr>"
    by (subst b2, subst a2) simp
  have c3: "dict_versions (volumes m') X =
      filter (\<lambda>r. \<forall>j\<in>set (i # ids). version r \<noteq> ?t j X) (dict_versions (volumes m) X)" for X
    by (auto simp: a3' b3 intro: filter_cong)
  from c1 c2 c3 show ?case by blast
qed

lemma merge_entry_effect:
  assumes "merge_entry (k, nd) (lg, m) = (lg', m')"
  shows "set (map fst (volumes m')) = insert k (set (map fst (volumes m)))"
    and "m' = m\<lparr>volumes := volumes m'\<rparr>"
    and "dict_versions (volumes m') X =
           (if X = k
            then dict_versions (volumes m) k @
                   filter (\<lambda>v. version v \<notin> version ` set (dict_versions (volumes m) k))
                     (versions nd)
            else dict_versions (volumes m) X)"
proof -
  show "set (map fst (volumes m')) = insert k (set (map fst (volumes m)))"
    using assms
    by (cases "map_of (volumes m) k")
       (auto simp: merge_entry_def Let_def update_keys simp flip: set_map
             dest: map_of_SomeD split: if_splits)
  show "m' = m\<lparr>volumes := volumes m'\<rparr>"
    using assms by (cases "map_of (volumes m) k") (auto simp: merge_entry_def Let_def)
  show "dict_versions (volumes m') X =
           (if X = k
            then dict_versions (volumes m) k @
                   filter (\<lambda>v. version v \<notin> version ` set (dict_versions (volumes m) k))
                     (versions nd)
            else dict_versions (volumes m) X)"
    using assms
    by (cases "map_of (volumes m) k")
       (auto simp: merge_entry_def Let_def dict_versions_def update_conv'
             get_all_version_strings_def get_all_versions_def)
qed

lemma merge_new_volumes_effect:
  assumes "merge_new_volumes new (lg, m) = (lg', m')"
  shows "set (map fst (volumes m')) = set (map fst (volumes m)) \<union> fst ` set new \<and>
         m' = m\<lparr>volumes := volumes m'\<rparr> \<and>
         (\<forall>X. set (dict_versions (volumes m) X) \<subseteq> set (dict_versions (volumes m') X)) \<and>
         (\<forall>X. set (dict_versions (volumes m') X) \<subseteq>
                set (dict_versions (volumes m) X) \<union>
                (\<Union>nd\<in>{nd. (X, nd) \<in> set new}. set (versions nd))) \<and>
         (\<forall>k nd. (k, nd) \<in> set new \<longrightarrow>
              version ` set (versions nd) \<subseteq> version ` set (dict_versions (volumes m') k))"
  using assms
proof (induction new arbitrary: lg m)
  case Nil
  then show ?case by (simp add: merge_new_volumes_def)
next
  case (Cons item new)
  obtain k nd where item: "item = (k, nd)" by (cases item)
  obtain lg1 m1 where s: "merge_entry (k, nd) (lg, m) = (lg1, m1)"
    by (cases "merge_entry (k, nd) (lg, m)")
  with Cons.prems item have rest: "merge_new_volumes new (lg1, m1) = (lg', m')"
    by (simp add: merge_new_volumes_def)
  note a = merge_entry_effect[OF s]
  from Cons.IH[OF rest] have
    b1: "set (map fst (volumes m')) = set (map fst (volumes m1)) \<union> fst ` set new" and
    b2: "m' = m1\<lparr>volumes := volumes m'\<rparr>" and
    b3: "\<And>X. set (dict_versions (volumes m1) X) \<subseteq> set (dict_versions (volumes m') X)" and
    b4: "\<And>X. set (dict_versions (volumes m') X) \<subseteq>
                set (dict_versions (volumes m1) X) \<union>
                (\<Union>nd\<in>{nd. (X, nd) \<in> set new}. set (versions nd))" and
    b5: "\<And>k nd. (k, nd) \<in> set new \<Longrightarrow>
              version ` set (versions nd) \<subseteq> version ` set (dict_versions (volumes m') k)"
    by blast+
  have a3sub: "set (dict_versions (volumes m) X) \<subseteq> set (dict_versions (volumes m1) X)" for X
    by (auto simp: a(3))
  have a3sup: "set (dict_versions (volumes m1) X) \<subseteq>
      set (dict_versions (volumes m) X) \<union> (if X = k then set (versions nd) else {})" for X
    by (auto simp: a(3))
  have a3tok: "version ` set (versions nd) \<subseteq> version ` set (dict_versions (volumes m1) k)"
    by (auto simp: a(3))
  have c1: "set (map fst (volumes m')) = set (map fst (volumes m)) \<union> fst ` set (item # new)"
    using a(1) b1 item by auto
  have c2: "m' = m\<lparr>volumes := volumes m'\<rparr>"
    by (subst b2, subst a(2)) simp
  have c3: "set (dict_versions (volumes m) X) \<subseteq> set (dict_versions (volumes m') X)" for X
    using a3sub[of X] b3[of X] by blast
  have c4: "set (dict_versions (volumes m') X) \<subseteq>
                set (dict_versions (volumes m) X) \<union>
                (\<Union>nd\<in>{nd. (X, nd) \<in> set (item # new)}. set (versions nd))" for X
  proof
    fix r assume "r \<in> set (dict_versions (volumes m') X)"
    with b4[of X] have "r \<in> set (dict_versions (volumes m1) X) \<or>
        (\<exists>nd'. (X, nd') \<in> set new \<and> r \<in> set (versions nd'))" by auto
    then show "r \<in> set (dict_versions (volumes m) X) \<union>
                (\<Union>nd\<in>{nd. (X, nd) \<in> set (item # new)}. set (versions nd))"
    proof
      assume "r \<in> set (dict_versions (volumes m1) X)"
      with a3sup[of X] item show ?thesis by (auto split: if_splits)
    next
      assume "\<exists>nd'. (X, nd') \<in> set new \<and> r \<in> set (versions nd')"
      then show ?thesis by auto
    qed
  qed
  have c5: "version ` set (versions nd') \<subseteq> version ` set (dict_versions (volumes m') k')"
    if "(k', nd') \<in> set (item # new)" for k' nd'
  proof (cases "(k', nd') = item")
    case True
    with item have "k' = k" "nd' = nd" by auto
    with a3tok b3[of k] show ?thesis by blast
  next
    case False
    with that have "(k', nd') \<in> set new" by auto
    from b5[OF this] show ?thesis .
  qed
  from c1 c2 c3 c4 c5 show ?case by blast
qed

lemma merge_entry_noop:
  assumes "map_of (volumes m) k = Some e"
      and "version ` set (versions nd) \<subseteq> version ` set (versions e)"
  shows "merge_entry (k, nd) (lg, m) = (lg, m)"
proof -
  have f: "filter (\<lambda>v. version v \<notin> set (get_all_version_strings m k)) (versions nd) = []"
    using assms by (auto simp: get_all_version_strings_def get_all_versions_def filter_empty_conv)
  have "AList.update k e (volumes m) = volumes m"
    using assms(1) by (rule update_triv)
  with assms(1) f show ?thesis
    by (simp add: merge_entry_def Let_def)
qed

lemma merge_new_volumes_noop:
  assumes "\<forall>(k, nd)\<in>set new. k \<in> set (map fst (volumes m)) \<and>
             version ` set (versions nd) \<subseteq> version ` set (dict_versions (volumes m) k)"
  shows "merge_new_volumes new (lg, m) = (lg, m)"
  using assms
proof (induction new)
  case Nil
  then show ?case by (simp add: merge_new_volumes_def)
next
  case (Cons item new)
  obtain k nd where item: "item = (k, nd)" by (cases item)
  with Cons.prems have kin: "k \<in> set (map fst (volumes m))" and
    tok: "version ` set (versions nd) \<subseteq> version ` set (dict_versions (volumes m) k)"
    by auto
  from kin obtain e where e: "map_of (volumes m) k = Some e"
    by (metis map_of_eq_None_iff not_None_eq set_map)
  with tok have "version ` set (versions nd) \<subseteq> version ` set (versions e)"
    by (simp add: dict_versions_def)
  from merge_entry_noop[OF e this] have "merge_entry item (lg, m) = (lg, m)"
    by (simp add: item)
  moreover from Cons.prems have "\<forall>(k, nd)\<in>set new. k \<in> set (map fst (volumes m)) \<and>
             version ` set (versions nd) \<subseteq> version ` set (dict_versions (volumes m) k)"
    by simp
  ultimately show ?case using Cons.IH by (simp add: merge_new_volumes_def)
qed

lemma remove_volume_effect:
  "map fst (volumes (remove_volume m k)) = filter (\<lambda>x. x \<noteq> k) (map fst (volumes m)) \<and>
   remove_volume m k = m\<lparr>volumes := volumes (remove_volume m k)\<rparr> \<and>
   (\<forall>X. dict_versions (volumes (remove_volume m k)) X =
         (if X = k then [] else dict_versions (volumes m) X))"
proof (cases "map_of (volumes m) k")
  case None
  then have "k \<notin> set (map fst (volumes m))" by (simp add: map_of_eq_None_iff)
  then have "filter (\<lambda>x. x \<noteq> k) (map fst (volumes m)) = map fst (volumes m)"
    by (auto simp: filter_id_conv)
  with None show ?thesis by (simp add: remove_volume_def dict_versions_def)
next
  case (Some e)
  have "map fst (AList.delete k al) = filter (\<lambda>x. x \<noteq> k) (map fst al)"
    for al :: volumes_dict
    by (induction al) auto
  then have "map fst (AList.delete k (volumes m)) = filter (\<lambda>x. x \<noteq> k) (map fst (volumes m))" .
  with Some show ?thesis
    by (simp add: remove_volume_def dict_versions_def delete_conv')
qed

lemma remove_volumes_effect:
  assumes "remove_volumes removed (lg, m) = (lg', m')"
  shows "map fst (volumes m') = filter (\<lambda>x. x \<notin> set removed) (map fst (volumes m)) \<and>
         m' = m\<lparr>volumes := volumes m'\<rparr> \<and>
         (\<forall>X. dict_versions (volumes m') X =
               (if X \<in> set removed then [] else dict_versions (volumes m) X))"
  using assms
proof (induction removed arbitrary: lg m)
  case Nil
  then show ?case by (simp add: remove_volumes_def)
next
  case (Cons k ks)
  let ?m1 = "remove_volume m k"
  from Cons.prems have rest:
    "remove_volumes ks (lg @ [''Removed volume entry: '' @ k], ?m1) = (lg', m')"
    by (simp add: remove_volumes_def)
  from remove_volume_effect[of m k] have
    a1: "map fst (volumes ?m1) = filter (\<lambda>x. x \<noteq> k) (map fst (volumes m))" and
    a2: "?m1 = m\<lparr>volumes := volumes ?m1\<rparr>" and
    a3: "\<And>X. dict_versions (volumes ?m1) X = (if X = k then [] else dict_versions (volumes m) X)"
    by blast+
  from Cons.IH[OF rest] have
    b1: "map fst (volumes m') = filter (\<lambda>x. x \<notin> set ks) (map fst (volumes ?m1))" and
    b2: "m' = ?m1\<lparr>volumes := volumes m'\<rparr>" and
    b3: "\<And>X. dict_versions (volumes m') X =
               (if X \<in> set ks then [] else dict_versions (volumes ?m1) X)"
    by blast+
  have c1: "map fst (volumes m') = filter (\<lambda>x. x \<notin> set (k # ks)) (map fst (volumes m))"
    by (simp add: a1 b1 conj_commute)
  have c2: "m' = m\<lparr>volumes := volumes m'\<rparr>"
    by (subst b2, subst a2) simp
  have c3: "dict_versions (volumes m') X =
               (if X \<in> set (k # ks) then [] else dict_versions (volumes m) X)" for X
    by (simp add: a3 b3)
  from c1 c2 c3 show ?case by blast
qed

lemma dict_versions_memD:
  "r \<in> set (dict_versions vols X) \<Longrightarrow> \<exists>e. map_of vols X = Some e \<and> r \<in> set (versions e)"
  by (cases "map_of vols X") (auto simp: dict_versions_def)

lemma all_version_ids_set:
  "set (all_version_ids vols) = {vid r | X r. r \<in> set (dict_versions vols X)}"
proof (intro set_eqI iffI)
  fix i assume "i \<in> set (all_version_ids vols)"
  then obtain k where "k \<in> set (map fst vols)"
    "i \<in> set (case map_of vols k of None \<Rightarrow> [] | Some e \<Rightarrow> map vid (versions e))"
    unfolding all_version_ids_def by auto
  then have "i \<in> vid ` set (dict_versions vols k)"
    by (auto simp: dict_versions_def split: option.splits)
  then show "i \<in> {vid r | X r. r \<in> set (dict_versions vols X)}" by blast
next
  fix i assume "i \<in> {vid r | X r. r \<in> set (dict_versions vols X)}"
  then obtain X r where r: "r \<in> set (dict_versions vols X)" "i = vid r" by blast
  from dict_versions_memD[OF r(1)] obtain e where
    e: "map_of vols X = Some e" "r \<in> set (versions e)" by blast
  then have "X \<in> set (map fst vols)"
    by (metis map_of_eq_None_iff option.distinct(1) set_map)
  with e r(2) show "i \<in> set (all_version_ids vols)"
    unfolding all_version_ids_def by force
qed

lemma canonical_idsD:
  assumes "canonical_ids vols" "r \<in> set (dict_versions vols X)"
  shows "\<exists>k. version r = ''v'' @ str_nat k \<and> vid r = X @ ''-v'' @ str_nat k"
proof -
  from dict_versions_memD[OF assms(2)] obtain e where
    e: "map_of vols X = Some e" "r \<in> set (versions e)" by blast
  from e(1) have "(X, e) \<in> set vols" by (rule map_of_SomeD)
  with assms(1) e(2) have "is_version_token (version r)" "vid r = X @ ''-'' @ version r"
    by (auto simp: canonical_ids_def list_all_iff)
  with version_token_form[of "version r"] show ?thesis by auto
qed

lemma so_empty:
  assumes "\<forall>xs. set (so xs) = set xs"
  shows "so [] = []"
  using assms by (metis set_empty)

text \<open>
  When every id is the subject, a hyphen and the token of its record, in the manifest
  and in the index a first reconciliation was run against, a second reconciliation
  against an index with the same keys, tokens and ids returns the manifest it was given
  and an empty log, whatever the order of the sets is.
\<close>

lemma update_index_second_noop:
  assumes so1: "\<forall>xs. set (so1 xs) = set xs" and so2: "\<forall>xs. set (so2 xs) = set xs"
      and c0: "canonical_ids (volumes m)" and cN: "canonical_ids N"
      and dN: "distinct (map fst N)"
      and first: "update_index so1 m N = Inr (lg1, m1)"
      and keys': "fst ` set N' = fst ` set N"
      and toks': "\<forall>(k, nd)\<in>set N'.
                    version ` set (versions nd) \<subseteq> version ` set (dict_versions N k)"
      and ids': "set (all_version_ids N') = set (all_version_ids N)"
  shows "update_index so2 m1 N' = Inr ([], m1)"
proof -
  let ?t = "\<lambda>i X. ''v'' @ fmt_opt_int (extract_version_number i X)"
  let ?rv = "so1 (filter (\<lambda>k. k \<notin> set (map fst N)) (remdups (map fst (volumes m))))"
  let ?rs = "so1 (filter (\<lambda>i. i \<notin> set (all_version_ids N))
                    (remdups (all_version_ids (volumes m))))"
  obtain lgA mA where sA: "merge_new_volumes N ([], m) = (lgA, mA)"
    by (cases "merge_new_volumes N ([], m)")
  obtain lgB mB where sB: "remove_volumes ?rv (lgA, mA) = (lgB, mB)"
    by (cases "remove_volumes ?rv (lgA, mA)")
  from first sA sB have sC: "remove_segs ?rs (lgB, mB) = Inr (lg1, m1)"
    by (simp add: update_index_def Let_def)
  have rv: "set ?rv = set (map fst (volumes m)) - fst ` set N"
    using so1 by auto
  have rs: "set ?rs = set (all_version_ids (volumes m)) - set (all_version_ids N)"
    using so1 by auto
  from merge_new_volumes_effect[OF sA] have
    A1: "set (map fst (volumes mA)) = set (map fst (volumes m)) \<union> fst ` set N" and
    A4: "\<And>X. set (dict_versions (volumes mA) X) \<subseteq>
                set (dict_versions (volumes m) X) \<union>
                (\<Union>nd\<in>{nd. (X, nd) \<in> set N}. set (versions nd))" and
    A5: "\<And>k nd. (k, nd) \<in> set N \<Longrightarrow>
              version ` set (versions nd) \<subseteq> version ` set (dict_versions (volumes mA) k)"
    by blast+
  from remove_volumes_effect[OF sB] have
    B1: "map fst (volumes mB) = filter (\<lambda>x. x \<notin> set ?rv) (map fst (volumes mA))" and
    B3: "\<And>X. dict_versions (volumes mB) X =
               (if X \<in> set ?rv then [] else dict_versions (volumes mA) X)"
    by blast+
  from remove_segs_effect[OF sC] have
    C1: "map fst (volumes m1) = map fst (volumes mB)" and
    C3: "\<And>X. dict_versions (volumes m1) X =
            filter (\<lambda>r. \<forall>i\<in>set ?rs. version r \<noteq> ?t i X) (dict_versions (volumes mB) X)"
    by blast+
  have K: "set (map fst (volumes m1)) = fst ` set N"
    unfolding C1 B1 using A1 rv by auto
  have dvN: "set (dict_versions N X) = set (versions nd)" if "(X, nd) \<in> set N" for X nd
    using that dN by (simp add: dict_versions_def)
  text \<open>Every token of the new index is a token of the manifest after the first call.\<close>
  have tok: "t \<in> version ` set (dict_versions (volumes m1) k)"
    if t: "t \<in> version ` set (dict_versions N k)" for t k
  proof -
    from t obtain rn where rn: "rn \<in> set (dict_versions N k)" "version rn = t" by blast
    from dict_versions_memD[OF rn(1)] obtain n0 where
      n0: "map_of N k = Some n0" "rn \<in> set (versions n0)" by blast
    from n0(1) have inN: "(k, n0) \<in> set N" by (rule map_of_SomeD)
    from A5[OF inN] n0(2) rn(2) obtain ra where
      ra: "ra \<in> set (dict_versions (volumes mA) k)" "version ra = t" by force
    from inN have "k \<notin> set ?rv" unfolding rv by force
    with ra(1) have raB: "ra \<in> set (dict_versions (volumes mB) k)" by (simp add: B3)
    from canonical_idsD[OF cN rn(1)] rn(2) obtain kk where
      kk: "t = ''v'' @ str_nat kk" "vid rn = k @ ''-v'' @ str_nat kk" by auto
    have "t \<noteq> ?t i k" if i: "i \<in> set ?rs" for i
    proof
      assume eq: "t = ?t i k"
      from i rs have im: "i \<in> set (all_version_ids (volumes m))"
        and iN: "i \<notin> set (all_version_ids N)" by auto
      from im obtain X0 r0 where r0: "r0 \<in> set (dict_versions (volumes m) X0)" "i = vid r0"
        unfolding all_version_ids_set by blast
      from canonical_idsD[OF c0 r0(1)] r0(2) obtain k0 where
        k0: "i = X0 @ ''-v'' @ str_nat k0" by auto
      from eq kk(1) have "''v'' @ fmt_opt_int (extract_version_number i k) = ''v'' @ str_nat kk"
        by simp
      from fmt_token_eq[OF this] obtain n where
        n: "extract_version_number i k = Some n" "str_int n = str_nat kk" by blast
      from n(1) k0 extract_canonical_unique[of X0 k0 k n] have "k = X0" "n = int k0" by auto
      with n(2) have "str_nat k0 = str_nat kk" by (simp add: str_int_nat)
      with k0 kk(2) \<open>k = X0\<close> have "i = vid rn" by simp
      with rn(1) have "i \<in> set (all_version_ids N)" unfolding all_version_ids_set by blast
      with iN show False by contradiction
    qed
    with raB ra(2) have "ra \<in> set (dict_versions (volumes m1) k)" by (simp add: C3)
    with ra(2) show ?thesis by blast
  qed
  text \<open>Every id of the manifest after the first call is an id of the new index.\<close>
  have idsub: "set (all_version_ids (volumes m1)) \<subseteq> set (all_version_ids N)"
  proof
    fix i assume "i \<in> set (all_version_ids (volumes m1))"
    then obtain X r where r: "r \<in> set (dict_versions (volumes m1) X)" "i = vid r"
      unfolding all_version_ids_set by blast
    from r(1) have rB: "r \<in> set (dict_versions (volumes mB) X)" and
      surv: "\<forall>j\<in>set ?rs. version r \<noteq> ?t j X" by (auto simp: C3)
    from rB have rA: "r \<in> set (dict_versions (volumes mA) X)"
      by (auto simp: B3 split: if_splits)
    with A4[of X] have "r \<in> set (dict_versions (volumes m) X) \<or>
        (\<exists>nd. (X, nd) \<in> set N \<and> r \<in> set (versions nd))" by auto
    then show "i \<in> set (all_version_ids N)"
    proof
      assume "\<exists>nd. (X, nd) \<in> set N \<and> r \<in> set (versions nd)"
      then obtain nd where "(X, nd) \<in> set N" "r \<in> set (versions nd)" by blast
      with dvN[of X nd] have "r \<in> set (dict_versions N X)" by simp
      with r(2) show ?thesis unfolding all_version_ids_set by blast
    next
      assume rm: "r \<in> set (dict_versions (volumes m) X)"
      show ?thesis
      proof (rule ccontr)
        assume notin: "i \<notin> set (all_version_ids N)"
        from rm r(2) have "i \<in> set (all_version_ids (volumes m))"
          unfolding all_version_ids_set by blast
        with notin rs have "i \<in> set ?rs" by auto
        with surv have ne: "version r \<noteq> ?t i X" by blast
        from canonical_idsD[OF c0 rm] r(2) obtain k0 where
          k0: "version r = ''v'' @ str_nat k0" "i = X @ ''-v'' @ str_nat k0" by auto
        from extract_canonical[of X k0] k0(2) have "?t i X = ''v'' @ str_nat k0"
          by (simp add: fmt_opt_int_def str_int_nat)
        with ne k0(1) show False by simp
      qed
    qed
  qed
  text \<open>The second call.\<close>
  have noop: "merge_new_volumes N' ([], m1) = ([], m1)"
  proof (rule merge_new_volumes_noop, clarify)
    fix k nd assume kn: "(k, nd) \<in> set N'"
    then have "k \<in> fst ` set N'" by force
    with keys' K have k1: "k \<in> set (map fst (volumes m1))" by simp
    from toks' kn have "version ` set (versions nd) \<subseteq> version ` set (dict_versions N k)"
      by blast
    with tok have "version ` set (versions nd) \<subseteq>
        version ` set (dict_versions (volumes m1) k)" by blast
    with k1 show "k \<in> set (map fst (volumes m1)) \<and>
        version ` set (versions nd) \<subseteq> version ` set (dict_versions (volumes m1) k)" by simp
  qed
  have e1: "filter (\<lambda>k. k \<notin> set (map fst N')) (remdups (map fst (volumes m1))) = []"
    using K keys' by (auto simp: filter_empty_conv)
  have e2: "filter (\<lambda>i. i \<notin> set (all_version_ids N'))
              (remdups (all_version_ids (volumes m1))) = []"
    using idsub ids' by (auto simp: filter_empty_conv)
  have rv0: "remove_volumes [] ([], m1) = ([], m1)" by (simp add: remove_volumes_def)
  show ?thesis
    unfolding update_index_def Let_def noop e1 e2 so_empty[OF so2] rv0 by simp
qed

section \<open>The claims\<close>

text \<open>
  C1: a second \<open>update_index\<close> against the same files changes the manifest again. The
  matcher keeps the base name of a file as the id of its record and writes the token
  from the number it reads, so the file \<open>A-v01\<close> gives the id \<open>A-v01\<close> with the token
  \<open>v1\<close>; the merge of \<open>update_index\<close> compares tokens and its removal compares ids.
  A manifest built by the matcher from the files \<open>A-v01\<close> and \<open>A-v2\<close> holds the id
  \<open>A-v01\<close>. After the file is renamed to \<open>A-v1\<close>, the first reconciliation adds
  nothing (the token \<open>v1\<close> is there) and removes the token \<open>v1\<close> (the id \<open>A-v01\<close> is
  gone), although \<open>A-v1\<close> is on disk; the second one, against the same files, adds
  \<open>v1\<close> again: its log is not empty and the manifest it returns is another one.
\<close>

theorem update_index_not_idempotent:
  "get_volseg_matches (ex_world [''A.nii''] [''A-v01.nii'', ''A-v2.nii''] []) (ex_manifest []) ''/d''
     = Inr [(''A'', \<lparr>selected_version = Some ''v2'',
               versions = [ex_version ''A-v01'' ''v1'', ex_version ''A-v2'' ''v2'']\<rparr>)] \<and>
   get_volseg_matches (ex_world [''A.nii''] [''A-v1.nii'', ''A-v2.nii''] [])
       (ex_manifest [(''A'', \<lparr>selected_version = Some ''v2'',
               versions = [ex_version ''A-v01'' ''v1'', ex_version ''A-v2'' ''v2'']\<rparr>)]) ''/d''
     = Inr [(''A'', ex_entry ''A'' ''v2'' [''v1'', ''v2''])] \<and>
   update_index (\<lambda>xs. xs)
       (ex_manifest [(''A'', \<lparr>selected_version = Some ''v2'',
               versions = [ex_version ''A-v01'' ''v1'', ex_version ''A-v2'' ''v2'']\<rparr>)])
       [(''A'', ex_entry ''A'' ''v2'' [''v1'', ''v2''])]
     = Inr ([''Removed segmentation version A-v01 from volume A''],
            ex_manifest [(''A'', ex_entry ''A'' ''v2'' [''v2''])]) \<and>
   get_volseg_matches (ex_world [''A.nii''] [''A-v1.nii'', ''A-v2.nii''] [])
       (ex_manifest [(''A'', ex_entry ''A'' ''v2'' [''v2''])]) ''/d''
     = Inr [(''A'', ex_entry ''A'' ''v2'' [''v1'', ''v2''])] \<and>
   update_index (\<lambda>xs. xs)
       (ex_manifest [(''A'', ex_entry ''A'' ''v2'' [''v2''])])
       [(''A'', ex_entry ''A'' ''v2'' [''v1'', ''v2''])]
     = Inr ([''Added new segmentation v1 to volume A''],
            ex_manifest [(''A'', ex_entry ''A'' ''v2'' [''v2'', ''v1''])])"
  by code_simp

text \<open>
  The same happens to a manifest whose ids are all the subject, a hyphen and the token,
  when the disk holds \<open>A-v01\<close>: the first reconciliation removes \<open>v1\<close> (the id \<open>A-v1\<close>
  is not on disk) and the second one adds it from \<open>A-v01\<close>.
\<close>

lemma update_index_leading_zero_on_disk:
  "get_volseg_matches (ex_world [''A.nii''] [''A-v01.nii'', ''A-v2.nii''] [])
       (ex_manifest [(''A'', ex_entry ''A'' ''v2'' [''v1'', ''v2''])]) ''/d''
     = Inr [(''A'', \<lparr>selected_version = Some ''v2'',
               versions = [ex_version ''A-v01'' ''v1'', ex_version ''A-v2'' ''v2'']\<rparr>)] \<and>
   update_index (\<lambda>xs. xs)
       (ex_manifest [(''A'', ex_entry ''A'' ''v2'' [''v1'', ''v2''])])
       [(''A'', \<lparr>selected_version = Some ''v2'',
               versions = [ex_version ''A-v01'' ''v1'', ex_version ''A-v2'' ''v2'']\<rparr>)]
     = Inr ([''Removed segmentation version A-v1 from volume A''],
            ex_manifest [(''A'', ex_entry ''A'' ''v2'' [''v2''])]) \<and>
   update_index (\<lambda>xs. xs)
       (ex_manifest [(''A'', ex_entry ''A'' ''v2'' [''v2''])])
       [(''A'', \<lparr>selected_version = Some ''v2'',
               versions = [ex_version ''A-v01'' ''v1'', ex_version ''A-v2'' ''v2'']\<rparr>)]
     = Inr ([''Added new segmentation v1 to volume A''],
            ex_manifest [(''A'', \<lparr>selected_version = Some ''v2'',
               versions = [ex_version ''A-v2'' ''v2'', ex_version ''A-v01'' ''v1'']\<rparr>)])"
  by code_simp

text \<open>
  On files named as the code itself names them the second reconciliation does nothing:
  the manifest \<open>A: v1\<close>, \<open>B: v1\<close> against the files \<open>A-v1\<close>, \<open>A-v2\<close>, \<open>C-v1\<close>.
\<close>

lemma update_index_twice_example:
  "update_index (\<lambda>xs. xs)
     (ex_manifest [(''A'', ex_entry ''A'' ''v1'' [''v1'']), (''B'', ex_entry ''B'' ''v1'' [''v1''])])
     [(''A'', ex_entry ''A'' ''v2'' [''v1'', ''v2'']), (''C'', ex_entry ''C'' ''v1'' [''v1''])]
     = Inr ([''Added new segmentation v2 to volume A'', ''Added new volume entry: C'',
             ''Added new segmentation v1 to volume C'', ''Removed volume entry: B'',
             ''Removed segmentation version B-v1 from volume A'',
             ''Removed segmentation version B-v1 from volume C''],
            ex_manifest [(''A'', ex_entry ''A'' ''v1'' [''v1'', ''v2'']),
                         (''C'', ex_entry ''C'' ''v1'' [''v1''])]) \<and>
   update_index rev
     (ex_manifest [(''A'', ex_entry ''A'' ''v1'' [''v1'', ''v2'']),
                   (''C'', ex_entry ''C'' ''v1'' [''v1''])])
     [(''A'', ex_entry ''A'' ''v2'' [''v1'', ''v2'']), (''C'', ex_entry ''C'' ''v1'' [''v1''])]
     = Inr ([], ex_manifest [(''A'', ex_entry ''A'' ''v1'' [''v1'', ''v2'']),
                             (''C'', ex_entry ''C'' ''v1'' [''v1''])])"
  by code_simp

text \<open>
  C2: the removal of segmentations in \<open>update_index\<close> visits every subject of the
  manifest for every removed id, calls \<open>remove_volume_version\<close> with the token
  \<open>vNone\<close> where the id is not the subject's, and logs a removal for each subject.
  With subjects \<open>A\<close> (versions \<open>v1\<close>, \<open>v2\<close>) and \<open>B\<close> (\<open>v1\<close>) in the manifest and
  \<open>A-v1\<close> gone from the new index, the log has two removal entries for the one
  removed id, one of them naming \<open>B\<close>.
\<close>

theorem update_index_logs_every_subject:
  "update_index (\<lambda>xs. xs)
     (ex_manifest [(''A'', ex_entry ''A'' ''v2'' [''v1'', ''v2'']),
                   (''B'', ex_entry ''B'' ''v1'' [''v1''])])
     [(''A'', ex_entry ''A'' ''v2'' [''v2'']), (''B'', ex_entry ''B'' ''v1'' [''v1''])]
   = Inr ([''Removed segmentation version A-v1 from volume A'',
           ''Removed segmentation version A-v1 from volume B''],
          ex_manifest [(''A'', ex_entry ''A'' ''v2'' [''v2'']),
                       (''B'', ex_entry ''B'' ''v1'' [''v1''])])"
  by code_simp

text \<open>
  The ids of a subject that is deleted wholesale are removed ids too: each is logged as
  removed from every subject that remains.
\<close>

lemma update_index_removed_volume_logs:
  "update_index (\<lambda>xs. xs)
     (ex_manifest [(''A'', ex_entry ''A'' ''v1'' [''v1'']),
                   (''B'', ex_entry ''B'' ''v1'' [''v1''])])
     [(''B'', ex_entry ''B'' ''v1'' [''v1''])]
   = Inr ([''Removed volume entry: A'',
           ''Removed segmentation version A-v1 from volume B''],
          ex_manifest [(''B'', ex_entry ''B'' ''v1'' [''v1''])])"
  by code_simp

text \<open>
  C3: for a subject of the manifest whose version tokens are well formed,
  \<open>remove_volume_version\<close> returns, and the records with the token are gone from the
  subject's list. When records remain, the entry keeps them; its selected version is
  unchanged if the removed token was not the selected one, and otherwise it is the token
  of a remaining record with the highest number. When no record remains, the subject has
  no entry in the manifest any more.
\<close>

theorem remove_volume_version_selects_latest:
  assumes "map_of (volumes m) k = Some e"
      and "\<forall>r\<in>set (versions e). is_version_token (version r)"
      and "t \<in> version ` set (versions e)"
  shows "\<exists>lg m'. remove_volume_version m k t = Inr (lg, m') \<and>
      (let kept = filter (\<lambda>r. version r \<noteq> t) (versions e) in
        (kept = [] \<longrightarrow> volumes m' = AList.delete k (volumes m) \<and>
                         map_of (volumes m') k = None) \<and>
        (kept \<noteq> [] \<longrightarrow>
           (\<exists>sel. volumes m' =
                    AList.update k \<lparr>selected_version = sel, versions = kept\<rparr> (volumes m) \<and>
              (selected_version e \<noteq> Some t \<longrightarrow> sel = selected_version e) \<and>
              (selected_version e = Some t \<longrightarrow>
                 (\<exists>r\<in>set kept. sel = Some (version r) \<and>
                    (\<forall>r'\<in>set kept. version_number r' \<le> version_number r))))))"
proof -
  from remove_volume_version_result[OF assms(1,2), of t] obtain lg m' where
    r: "remove_volume_version m k t = Inr (lg, m')"
       "(let kept = filter (\<lambda>r. version r \<noteq> t) (versions e) in
        (kept = [] \<longrightarrow> volumes m' = AList.delete k (volumes m)) \<and>
        (kept \<noteq> [] \<longrightarrow>
           (\<exists>sel. volumes m' =
                    AList.update k \<lparr>selected_version = sel, versions = kept\<rparr> (volumes m) \<and>
              (selected_version e \<noteq> Some t \<longrightarrow> sel = selected_version e) \<and>
              (selected_version e = Some t \<longrightarrow>
                 (\<exists>r\<in>set kept. sel = Some (version r) \<and>
                    (\<forall>r'\<in>set kept. version_number r' \<le> version_number r))))))"
    by blast
  have "volumes m' = AList.delete k (volumes m) \<Longrightarrow> map_of (volumes m') k = None"
    by (simp add: delete_conv')
  with r show ?thesis by (auto simp: Let_def)
qed

theorem remove_volume_version_selects_latest_witness:
  "map_of (volumes (ex_manifest [(''A'', ex_entry ''A'' ''v3'' [''v1'', ''v2'', ''v3''])])) ''A''
     = Some (ex_entry ''A'' ''v3'' [''v1'', ''v2'', ''v3'']) \<and>
   list_all (\<lambda>r. is_version_token (version r))
     (versions (ex_entry ''A'' ''v3'' [''v1'', ''v2'', ''v3''])) \<and>
   ''v3'' \<in> version ` set (versions (ex_entry ''A'' ''v3'' [''v1'', ''v2'', ''v3''])) \<and>
   (\<exists>lg m'. remove_volume_version
        (ex_manifest [(''A'', ex_entry ''A'' ''v3'' [''v1'', ''v2'', ''v3''])]) ''A'' ''v3''
        = Inr (lg, m') \<and>
      (\<exists>sel. volumes m' =
           [(''A'', \<lparr>selected_version = sel,
               versions = [ex_version ''A-v1'' ''v1'', ex_version ''A-v2'' ''v2'']\<rparr>)] \<and>
         (\<exists>r\<in>{ex_version ''A-v1'' ''v1'', ex_version ''A-v2'' ''v2''}.
            sel = Some (version r) \<and>
            (\<forall>r'\<in>{ex_version ''A-v1'' ''v1'', ex_version ''A-v2'' ''v2''}.
               version_number r' \<le> version_number r))))"
proof -
  let ?e = "ex_entry ''A'' ''v3'' [''v1'', ''v2'', ''v3'']"
  let ?m = "ex_manifest [(''A'', ?e)]"
  have h1: "map_of (volumes ?m) ''A'' = Some ?e"
    by (simp add: ex_manifest_def)
  have t1: "is_version_token ''v1''" "is_version_token ''v2''" "is_version_token ''v3''"
    by code_simp+
  have h2: "\<forall>r\<in>set (versions ?e). is_version_token (version r)"
    using t1 by (simp add: ex_entry_def ex_version_def)
  have h3: "''v3'' \<in> version ` set (versions ?e)"
    by (simp add: ex_entry_def ex_version_def)
  have k: "filter (\<lambda>r. version r \<noteq> ''v3'') (versions ?e)
             = [ex_version ''A-v1'' ''v1'', ex_version ''A-v2'' ''v2'']"
    by (simp add: ex_entry_def ex_version_def)
  have s: "selected_version ?e = Some ''v3''" by (simp add: ex_entry_def)
  have v: "volumes ?m = [(''A'', ?e)]" by (simp add: ex_manifest_def)
  from remove_volume_version_selects_latest[OF h1 h2 h3]
  have "\<exists>lg m'. remove_volume_version ?m ''A'' ''v3'' = Inr (lg, m') \<and>
      (\<exists>sel. volumes m' =
           [(''A'', \<lparr>selected_version = sel,
               versions = [ex_version ''A-v1'' ''v1'', ex_version ''A-v2'' ''v2'']\<rparr>)] \<and>
         (\<exists>r\<in>{ex_version ''A-v1'' ''v1'', ex_version ''A-v2'' ''v2''}.
            sel = Some (version r) \<and>
            (\<forall>r'\<in>{ex_version ''A-v1'' ''v1'', ex_version ''A-v2'' ''v2''}.
               version_number r' \<le> version_number r)))"
    unfolding k s v Let_def by simp
  with h1 h2 h3 show ?thesis unfolding list_all_iff by blast
qed

text \<open>
  The example of C3, run on the code: from versions \<open>v1\<close>, \<open>v2\<close>, \<open>v3\<close> with \<open>v3\<close>
  selected, removing \<open>v3\<close> selects \<open>v2\<close>, and removing all three leaves no entry.
\<close>

lemma remove_volume_version_example:
  "remove_volume_version
     (ex_manifest [(''A'', ex_entry ''A'' ''v3'' [''v1'', ''v2'', ''v3''])]) ''A'' ''v3''
   = Inr (''Updated selected-version for A to latest version v2'',
          ex_manifest [(''A'', ex_entry ''A'' ''v2'' [''v1'', ''v2''])])"
  "remove_volume_version
     (ex_manifest [(''A'', ex_entry ''A'' ''v2'' [''v1'', ''v2''])]) ''A'' ''v2''
   = Inr (''Updated selected-version for A to latest version v1'',
          ex_manifest [(''A'', ex_entry ''A'' ''v1'' [''v1''])])"
  "remove_volume_version
     (ex_manifest [(''A'', ex_entry ''A'' ''v1'' [''v1''])]) ''A'' ''v1''
   = Inr (''Updated selected-version for A to latest version vNone'', ex_manifest [])"
  by code_simp+

text \<open>
  C4: invariant I2 holds after every run of operations that completes. The operations
  are \<open>add_volume_version\<close> (with a token \<open>v{N}\<close>), the \<open>update\<close> command (matcher and
  \<open>update_index\<close>: merge, removal of volumes, removal of versions), \<open>remove_volume\<close>,
  \<open>remove_volume_version\<close> and \<open>select_segmentation\<close>; the run starts from a manifest
  whose entries satisfy I2 and hold version tokens only, such as the empty manifest of
  \<open>build_empty_manifest\<close> or a manifest created from the index the matcher returns.
  Every prefix of a run is a run, so the invariant holds after each operation.
\<close>

theorem selected_version_invariant:
  "(manifest_ok m \<and> run_ops m ops = Inr m' \<longrightarrow> invariant_I2 m' \<and> manifest_ok m') \<and>
   (run_ops (build_empty_manifest iname vp vext lp lext) ops = Inr m' \<longrightarrow> invariant_I2 m') \<and>
   (verify_volseg_match w vdir vext sdir lext = Inr (lg, warnings, errors, idx) \<and>
    run_ops ((build_empty_manifest iname vp vext lp lext)\<lparr>volumes := idx\<rparr>) ops = Inr m'
      \<longrightarrow> invariant_I2 m')"
proof (intro conjI impI)
  assume a: "manifest_ok m \<and> run_ops m ops = Inr m'"
  then have "manifest_ok m'" using run_ops_ok by blast
  then show "invariant_I2 m'" "manifest_ok m'" by (simp_all add: manifest_ok_I2)
next
  assume a: "run_ops (build_empty_manifest iname vp vext lp lext) ops = Inr m'"
  have "manifest_ok (build_empty_manifest iname vp vext lp lext)"
    by (simp add: manifest_ok_def build_empty_manifest_def)
  from run_ops_ok[OF this a] show "invariant_I2 m'" by (rule manifest_ok_I2)
next
  assume a: "verify_volseg_match w vdir vext sdir lext = Inr (lg, warnings, errors, idx) \<and>
    run_ops ((build_empty_manifest iname vp vext lp lext)\<lparr>volumes := idx\<rparr>) ops = Inr m'"
  then have v: "verify_volseg_match w vdir vext sdir lext = Inr (lg, warnings, errors, idx)"
    and r: "run_ops ((build_empty_manifest iname vp vext lp lext)\<lparr>volumes := idx\<rparr>) ops
              = Inr m'"
    by simp_all
  have "manifest_ok ((build_empty_manifest iname vp vext lp lext)\<lparr>volumes := idx\<rparr>)"
    using verify_volseg_match_ok[OF v] by (simp add: manifest_ok_def)
  from run_ops_ok[OF this r] show "invariant_I2 m'" by (rule manifest_ok_I2)
qed

theorem selected_version_invariant_witness:
  "manifest_ok (ex_manifest []) \<and>
   run_ops (ex_manifest []) ex_ops
     = Inr (ex_manifest [(''A'', ex_entry ''A'' ''v2'' [''v1'', ''v2''])]) \<and>
   invariant_I2 (ex_manifest [(''A'', ex_entry ''A'' ''v2'' [''v1'', ''v2''])])"
proof -
  have a: "manifest_ok (ex_manifest [])"
    by (simp add: manifest_ok_def ex_manifest_def build_empty_manifest_def)
  have b: "run_ops (ex_manifest []) ex_ops
     = Inr (ex_manifest [(''A'', ex_entry ''A'' ''v2'' [''v1'', ''v2''])])"
    by code_simp
  from selected_version_invariant[of "ex_manifest []" ex_ops
         "ex_manifest [(''A'', ex_entry ''A'' ''v2'' [''v1'', ''v2''])]"] a b
  show ?thesis by blast
qed

text \<open>
  The tokens matter: with the token \<open>v01\<close> selected and \<open>v02\<close> beside it, removing
  \<open>v01\<close> selects \<open>v2\<close>, which no record carries. The code never writes such tokens.
\<close>

lemma remove_volume_version_noncanonical:
  "remove_volume_version
     (ex_manifest [(''A'', ex_entry ''A'' ''v01'' [''v01'', ''v02''])]) ''A'' ''v01''
   = Inr (''Updated selected-version for A to latest version v2'',
          ex_manifest [(''A'', ex_entry ''A'' ''v2'' [''v02''])])"
  by code_simp

text \<open>
  C5: \<open>update_segmentation_metadata\<close> compares the supplied tags, a string, with the
  stored list before it splits and trims them, and the two are never equal. Supplying
  \<open>a,b\<close> for a version whose stored tags are \<open>a\<close>, \<open>b\<close> writes the same tags again
  and moves \<open>last-updated\<close> to the current time.
\<close>

theorem update_segmentation_metadata_same_tags:
  "snd (snd (snd (update_segmentation_metadata (ex_world [] [] [])
     (ex_manifest [(''A'', \<lparr>selected_version = Some ''v1'',
         versions = [(ex_version ''A-v1'' ''v1'')\<lparr>tags := [''a'', ''b'']\<rparr>]\<rparr>)])
     ''A.nii'' ''v1'' [] [] ''a,b'')))
   = ex_manifest [(''A'', \<lparr>selected_version = Some ''v1'',
         versions = [(ex_version ''A-v1'' ''v1'')
                       \<lparr>tags := [''a'', ''b''], last_updated := ''t2''\<rparr>]\<rparr>)]"
  by code_simp

text \<open>Any non-empty tags argument moves \<open>last-updated\<close>.\<close>

lemma update_version_metadata_tags_bump:
  "seg_tags \<noteq> [] \<Longrightarrow>
     last_updated (snd (update_version_metadata w vb sv sa sn seg_tags v)) = utc_now w"
  by (simp add: update_version_metadata_def Let_def split: prod.splits if_splits)

text \<open>
  C6, as the code has it: the two fields of a row are paths, the instance directory
  joined with the configured volume (or label) path and the file name, with trailing
  white space stripped; they are not bare file names.
\<close>

theorem export_index_paths_counterexample:
  "export_index (ex_world [] [] [])
     (ex_manifest [(''A'', ex_entry ''A'' ''v2'' [''v1'', ''v2''])])
     ''/d'' ''index'' ''/d/out.csv''
   = Inr ([''Exporting 1 volume-segmentation pairs from index '' @ [CHR 0x27] @ ''index'' @
           [CHR 0x27] @ ''.'', ''Exported to /d/out.csv''],
          [''VOLUME FILE,SEGMENTATION FILE'' @ [CHR 0x0A],
           ''/d/vols/A.nii,/d/segs/A-v2.nii'' @ [CHR 0x0A]]) \<and>
   ''/d/vols/A.nii,/d/segs/A-v2.nii'' \<noteq> ''A.nii,A-v2.nii''"
  by code_simp

text \<open>
  C6, amended: when \<open>export_index\<close> returns, the directory of the target exists, the
  target's name ends in \<open>.csv\<close> (in any case), and what is written is the header
  followed by one row for each subject with a non-empty selected version, in the order
  of the manifest, pairing the path of the volume file with the path of the selected
  segmentation's file; there is at least one row. When the directory does not exist, the
  suffix is missing or no subject has a selected version, it raises \<open>SegVerException\<close>
  and writes nothing.
\<close>

theorem export_index_rows:
  "(\<forall>lg written. export_index w m root idx path = Inr (lg, written) \<longrightarrow>
      dir_files w (path_dirname (abspath w path)) \<noteq> None \<and>
      endswith (py_lower (path_basename (abspath w path))) ''.csv'' \<and>
      written =
        (''VOLUME FILE,SEGMENTATION FILE'' @ [CHR 0x0A]) #
        map (\<lambda>k. py_rstrip (path_join3 root (volume_path m) (k @ volume_extension m)) @ '','' @
                  py_rstrip (path_join3 root (label_path m)
                    (k @ ''-'' @ (case get_selected_version m k of None \<Rightarrow> [] | Some s \<Rightarrow> s)
                       @ label_extension m)) @ [CHR 0x0A])
          (filter (\<lambda>k. case get_selected_version m k of None \<Rightarrow> False | Some s \<Rightarrow> s \<noteq> [])
             (map fst (volumes m))) \<and>
      length written =
        1 + length (filter (\<lambda>k. case get_selected_version m k of
                                     None \<Rightarrow> False | Some s \<Rightarrow> s \<noteq> [])
                      (map fst (volumes m))) \<and>
      1 < length written) \<and>
   (dir_files w (path_dirname (abspath w path)) = None \<or>
    \<not> endswith (py_lower (path_basename (abspath w path))) ''.csv'' \<or>
    filter (\<lambda>k. case get_selected_version m k of None \<Rightarrow> False | Some s \<Rightarrow> s \<noteq> [])
      (map fst (volumes m)) = []
    \<longrightarrow> (\<exists>msg. export_index w m root idx path = Inl (SegVerException msg)))"
proof (intro conjI allI impI)
  fix lg written
  assume a: "export_index w m root idx path = Inr (lg, written)"
  let ?keys = "filter (\<lambda>k. case get_selected_version m k of None \<Rightarrow> False | Some s \<Rightarrow> s \<noteq> [])
             (map fst (volumes m))"
  from a have v: "validate_csv_path w path = []"
    by (auto simp: export_index_def split: list.splits)
  then show "dir_files w (path_dirname (abspath w path)) \<noteq> None"
    by (auto simp: validate_csv_path_def Let_def split: if_splits)
  from v show "endswith (py_lower (path_basename (abspath w path))) ''.csv''"
    by (auto simp: validate_csv_path_def Let_def split: if_splits)
  from a v have ne: "get_volume_seg_tuples m root \<noteq> []"
    by (auto simp: export_index_def Let_def split: if_splits)
  from a v ne have w: "written = (''VOLUME FILE,SEGMENTATION FILE'' @ [CHR 0x0A]) #
      map (\<lambda>(_, vfname, sfname). py_rstrip vfname @ '','' @ py_rstrip sfname @ [CHR 0x0A])
        (get_volume_seg_tuples m root)"
    by (auto simp: export_index_def Let_def split: if_splits option.splits)
  then show w2: "written =
        (''VOLUME FILE,SEGMENTATION FILE'' @ [CHR 0x0A]) #
        map (\<lambda>k. py_rstrip (path_join3 root (volume_path m) (k @ volume_extension m)) @ '','' @
                  py_rstrip (path_join3 root (label_path m)
                    (k @ ''-'' @ (case get_selected_version m k of None \<Rightarrow> [] | Some s \<Rightarrow> s)
                       @ label_extension m)) @ [CHR 0x0A]) ?keys"
    by (simp add: get_volume_seg_tuples_filter comp_def)
  then show "length written = 1 + length ?keys" by simp
  from ne have "?keys \<noteq> []" by (simp add: get_volume_seg_tuples_filter)
  with w2 show "1 < length written" by (cases ?keys) auto
next
  assume a: "dir_files w (path_dirname (abspath w path)) = None \<or>
    \<not> endswith (py_lower (path_basename (abspath w path))) ''.csv'' \<or>
    filter (\<lambda>k. case get_selected_version m k of None \<Rightarrow> False | Some s \<Rightarrow> s \<noteq> [])
      (map fst (volumes m)) = []"
  show "\<exists>msg. export_index w m root idx path = Inl (SegVerException msg)"
  proof (cases "validate_csv_path w path")
    case (Cons e es)
    then show ?thesis by (simp add: export_index_def)
  next
    case Nil
    then have "dir_files w (path_dirname (abspath w path)) \<noteq> None"
      "endswith (py_lower (path_basename (abspath w path))) ''.csv''"
      by (auto simp: validate_csv_path_def Let_def split: if_splits)
    with a have "get_volume_seg_tuples m root = []"
      by (simp add: get_volume_seg_tuples_filter)
    with Nil show ?thesis by (simp add: export_index_def)
  qed
qed

theorem export_index_rows_witness:
  "export_index (ex_world [] [] [])
     (ex_manifest [(''A'', ex_entry ''A'' ''v2'' [''v1'', ''v2'']),
                   (''B'', \<lparr>selected_version = None, versions = [ex_version ''B-v1'' ''v1'']\<rparr>)])
     ''/d'' ''index'' ''/d/out.csv''
   = Inr ([''Exporting 1 volume-segmentation pairs from index '' @ [CHR 0x27] @ ''index'' @
           [CHR 0x27] @ ''.'', ''Exported to /d/out.csv''],
          [''VOLUME FILE,SEGMENTATION FILE'' @ [CHR 0x0A],
           ''/d/vols/A.nii,/d/segs/A-v2.nii'' @ [CHR 0x0A]]) \<and>
   length [''VOLUME FILE,SEGMENTATION FILE'' @ [CHR 0x0A],
           ''/d/vols/A.nii,/d/segs/A-v2.nii'' @ [CHR 0x0A]] =
     1 + length (filter (\<lambda>k. case get_selected_version
          (ex_manifest [(''A'', ex_entry ''A'' ''v2'' [''v1'', ''v2'']),
                   (''B'', \<lparr>selected_version = None, versions = [ex_version ''B-v1'' ''v1'']\<rparr>)]) k of
                                     None \<Rightarrow> False | Some s \<Rightarrow> s \<noteq> [])
                      (map fst (volumes (ex_manifest [(''A'', ex_entry ''A'' ''v2'' [''v1'', ''v2'']),
                   (''B'', \<lparr>selected_version = None, versions = [ex_version ''B-v1'' ''v1'']\<rparr>)])))) \<and>
   dir_files (ex_world [] [] []) (path_dirname (abspath (ex_world [] [] []) ''/x/out.csv'')) = None \<and>
   (\<exists>msg. export_index (ex_world [] [] [])
     (ex_manifest [(''A'', ex_entry ''A'' ''v2'' [''v1'', ''v2''])])
     ''/d'' ''index'' ''/x/out.csv'' = Inl (SegVerException msg))"
proof -
  let ?w = "ex_world [] [] []"
  let ?m = "ex_manifest [(''A'', ex_entry ''A'' ''v2'' [''v1'', ''v2'']),
                   (''B'', \<lparr>selected_version = None, versions = [ex_version ''B-v1'' ''v1'']\<rparr>)]"
  have e: "export_index ?w ?m ''/d'' ''index'' ''/d/out.csv''
   = Inr ([''Exporting 1 volume-segmentation pairs from index '' @ [CHR 0x27] @ ''index'' @
           [CHR 0x27] @ ''.'', ''Exported to /d/out.csv''],
          [''VOLUME FILE,SEGMENTATION FILE'' @ [CHR 0x0A],
           ''/d/vols/A.nii,/d/segs/A-v2.nii'' @ [CHR 0x0A]])"
    by code_simp
  have d: "dir_files ?w (path_dirname (abspath ?w ''/x/out.csv'')) = None"
    by code_simp
  from export_index_rows[of ?w ?m "''/d''" "''index''" "''/d/out.csv''"] e
  have c1: "length [''VOLUME FILE,SEGMENTATION FILE'' @ [CHR 0x0A],
           ''/d/vols/A.nii,/d/segs/A-v2.nii'' @ [CHR 0x0A]] =
     1 + length (filter (\<lambda>k. case get_selected_version ?m k of
                                     None \<Rightarrow> False | Some s \<Rightarrow> s \<noteq> [])
                      (map fst (volumes ?m)))"
    by blast
  from export_index_rows[of ?w "ex_manifest [(''A'', ex_entry ''A'' ''v2'' [''v1'', ''v2''])]"
         "''/d''" "''index''" "''/x/out.csv''"] d
  have c2: "\<exists>msg. export_index ?w
     (ex_manifest [(''A'', ex_entry ''A'' ''v2'' [''v1'', ''v2''])])
     ''/d'' ''index'' ''/x/out.csv'' = Inl (SegVerException msg)"
    by blast
  from e c1 d c2 show ?thesis by blast
qed

text \<open>
  C7: the matcher takes a segmentation for a version of volume \<open>X\<close> when
  \<open>extract_version_number\<close> finds a number, and its pattern ends in \<open>$\<close>, which also
  matches just before a line feed that ends the name. So the base name \<open>A-v1\<close> followed
  by a line feed, which is not \<open>A-v<digits>\<close>, is matched to the volume \<open>A\<close>: it is
  indexed with the token \<open>v1\<close>, and neither \<open>A\<close> nor the file is reported without a
  match.
\<close>

theorem verify_volseg_match_trailing_line_feed:
  "\<not> names_version (''A-v1'' @ [CHR 0x0A]) ''A'' \<and>
   extract_version_number (''A-v1'' @ [CHR 0x0A]) ''A'' = Some 1 \<and>
   verify_volseg_match
       (ex_world [''A.nii''] [''A-v1'' @ [CHR 0x0A] @ ''.nii''] [])
       ''/d/vols'' ''.nii'' ''/d/segs'' ''.nii''
     = Inr ([''1 volumes found in /d/vols'', ''1 segmentations found in /d/segs''], [], [],
            [(''A'', \<lparr>selected_version = Some ''v1'',
                         versions = [ex_version (''A-v1'' @ [CHR 0x0A]) ''v1'']\<rparr>)])"
  by code_simp

text \<open>
  Any other character after the digits is refused, as the naming convention asks: the
  base name \<open>A-v1x\<close> is no version of \<open>A\<close>, and both are reported.
\<close>

lemma verify_volseg_match_trailing_letter:
  "verify_volseg_match
       (ex_world [''A.nii''] [''A-v1x.nii''] [])
       ''/d/vols'' ''.nii'' ''/d/segs'' ''.nii''
     = Inr ([''1 volumes found in /d/vols'', ''1 segmentations found in /d/segs''],
            [bereft_message ''Volumes without segmentation: '' [''A''],
             bereft_message ''Segmentations without volume: '' [''A-v1x'']],
            [], [])"
  by code_simp

text \<open>
  The line feed is the only departure: \<open>extract_version_number\<close> finds a number exactly
  for the names \<open>X-v<digits>\<close> and for such a name followed by one line feed.
\<close>

lemma extract_version_number_matches:
  "extract_version_number seg X \<noteq> None \<longleftrightarrow>
     names_version seg X \<or> (\<exists>s. seg = s @ [CHR 0x0A] \<and> names_version s X)"
proof
  assume a: "extract_version_number seg X \<noteq> None"
  then obtain n where n: "extract_version_number seg X = Some n" by blast
  show "names_version seg X \<or> (\<exists>s. seg = s @ [CHR 0x0A] \<and> names_version s X)"
  proof (cases "seg = [] \<or> last seg \<noteq> CHR 0x0A")
    case True
    from extract_names_version[OF n True] show ?thesis ..
  next
    case False
    then have ne: "seg \<noteq> []" and lf: "last seg = CHR 0x0A" by simp_all
    let ?k = "length X + 2"
    let ?rest = "drop ?k seg"
    from n have st: "startswith seg (X @ ''-v'')" by (rule extract_startswith)
    from n st have rne: "?rest \<noteq> []"
      by (auto simp: extract_version_number_def Let_def split: if_splits)
    then have lr: "last ?rest = CHR 0x0A" using lf by simp
    from n st rne lr have ds: "butlast ?rest \<noteq> []" "list_all is_digit (butlast ?rest)"
      by (auto simp: extract_version_number_def Let_def split: if_splits)
    from rne have len: "?k < length seg" by simp
    have "take ?k (butlast seg) = take ?k seg" using len by (simp add: take_butlast)
    with st have st': "startswith (butlast seg) (X @ ''-v'')" by (simp add: startswith_def)
    have "drop ?k (butlast seg) = butlast ?rest" by (simp add: drop_butlast)
    with ds st' have "names_version (butlast seg) X" by (simp add: names_version_def)
    moreover from ne lf have "seg = butlast seg @ [CHR 0x0A]"
      by (metis append_butlast_last_id)
    ultimately show ?thesis by blast
  qed
next
  assume "names_version seg X \<or> (\<exists>s. seg = s @ [CHR 0x0A] \<and> names_version s X)"
  then show "extract_version_number seg X \<noteq> None"
  proof
    assume "names_version seg X"
    from names_version_extract[OF this] show ?thesis by simp
  next
    assume "\<exists>s. seg = s @ [CHR 0x0A] \<and> names_version s X"
    then obtain s where s: "seg = s @ [CHR 0x0A]" and nv: "names_version s X" by blast
    let ?k = "length X + 2"
    from nv have st: "take ?k s = X @ ''-v''" and ne: "drop ?k s \<noteq> []"
      and dg: "list_all is_digit (drop ?k s)"
      by (simp_all add: names_version_def startswith_def)
    from ne have len: "?k < length s" by simp
    then have st': "startswith seg (X @ ''-v'')" using st s by (simp add: startswith_def)
    have rest: "drop ?k seg = drop ?k s @ [CHR 0x0A]" using len s by simp
    from st' rest ne dg show ?thesis
      by (simp add: extract_version_number_def Let_def py_int_digits)
  qed
qed

text \<open>
  On the example of the claim the matcher does as stated: the index holds \<open>A\<close> with
  \<open>v1\<close> and \<open>v2\<close>, \<open>v2\<close> selected; \<open>B\<close> is reported without segmentation and \<open>C-v1\<close>
  without volume.
\<close>

lemma verify_volseg_match_example:
  "verify_volseg_match
       (ex_world [''A.nii'', ''B.nii''] [''A-v1.nii'', ''A-v2.nii'', ''C-v1.nii''] [])
       ''/d/vols'' ''.nii'' ''/d/segs'' ''.nii''
     = Inr ([''2 volumes found in /d/vols'', ''3 segmentations found in /d/segs''],
            [bereft_message ''Volumes without segmentation: '' [''B''],
             bereft_message ''Segmentations without volume: '' [''C-v1'']],
            [],
            [(''A'', ex_entry ''A'' ''v2'' [''v1'', ''v2''])])"
  by code_simp

text \<open>A fingerprint that cannot be taken ends the matcher with the exception.\<close>

lemma verify_volseg_match_unreadable:
  "verify_volseg_match
       ((ex_world [''A.nii''] [''A-v1.nii''] [])\<lparr>hash_image := (\<lambda>p. None)\<rparr>)
       ''/d/vols'' ''.nii'' ''/d/segs'' ''.nii'' = Inl RuntimeError"
  by code_simp

text \<open>
  C8: \<open>link_segmentation\<close> derives the version (3 for a volume with versions \<open>v1\<close>,
  \<open>v2\<close> and an unversioned segmentation, 1 for a volume with none) and renames the
  file to the canonical name; the call that is to append the version then raises
  \<open>TypeError\<close>, so nothing is appended to the manifest.
\<close>

theorem link_segmentation_type_error:
  "snd (link_segmentation
          (ex_world [''A.nii''] [''A-v1.nii'', ''A-v2.nii'', ''seg.nii'']
             [''/d/vols/A.nii'', ''/d/segs/A-v1.nii'', ''/d/segs/A-v2.nii'', ''/d/segs/seg.nii''])
          (ex_manifest [(''A'', ex_entry ''A'' ''v2'' [''v1'', ''v2''])])
          ''/d'' ''A.nii'' ''seg.nii'') = Inl TypeError \<and>
   is_file (fst (link_segmentation
          (ex_world [''A.nii''] [''A-v1.nii'', ''A-v2.nii'', ''seg.nii'']
             [''/d/vols/A.nii'', ''/d/segs/A-v1.nii'', ''/d/segs/A-v2.nii'', ''/d/segs/seg.nii''])
          (ex_manifest [(''A'', ex_entry ''A'' ''v2'' [''v1'', ''v2''])])
          ''/d'' ''A.nii'' ''seg.nii'')) ''/d/segs/A-v3.nii'' \<and>
   next_version (ex_manifest [(''A'', ex_entry ''A'' ''v2'' [''v1'', ''v2''])]) ''seg'' ''A''
     = Inr 3 \<and>
   next_version (ex_manifest []) ''seg'' ''A'' = Inr 1"
  by code_simp

text \<open>
  Whenever \<open>link_segmentation\<close> returns, it returns errors and the manifest it was
  given.
\<close>

lemma link_segmentation_never_adds:
  "snd (link_segmentation w m d vf sf) = Inr (lg, ws, es, m') \<Longrightarrow> m' = m \<and> es \<noteq> [] \<and> lg = []"
  by (auto simp: link_segmentation_def Let_def split: if_splits sum.splits option.splits)

text \<open>
  C9: adding a version token that the subject already carries returns \<open>False\<close> and
  leaves the manifest as it was; so adding the same version twice gives the manifest
  that adding it once gives, for a subject that is present or not.
\<close>

theorem add_volume_version_duplicate:
  "(\<forall>e. map_of (volumes m) k = Some e \<and> ver \<in> version ` set (versions e) \<longrightarrow>
      add_volume_version h n1 n2 m k ver a nt tg tsa lua = (False, m)) \<and>
   add_volume_version h' n1' n2' (snd (add_volume_version h n1 n2 m k ver a nt tg tsa lua))
      k ver a' nt' tg' tsa' lua' =
     (False, snd (add_volume_version h n1 n2 m k ver a nt tg tsa lua))"
proof (intro conjI allI impI)
  fix e assume "map_of (volumes m) k = Some e \<and> ver \<in> version ` set (versions e)"
  then show "add_volume_version h n1 n2 m k ver a nt tg tsa lua = (False, m)"
    by (auto simp: add_volume_version_def Let_def list_ex_iff)
next
  show "add_volume_version h' n1' n2' (snd (add_volume_version h n1 n2 m k ver a nt tg tsa lua))
      k ver a' nt' tg' tsa' lua' =
     (False, snd (add_volume_version h n1 n2 m k ver a nt tg tsa lua))"
    by (cases "map_of (volumes m) k")
       (auto simp: add_volume_version_def Let_def list_ex_iff update_conv')
qed

theorem add_volume_version_duplicate_witness:
  "map_of (volumes (ex_manifest [(''A'', ex_entry ''A'' ''v1'' [''v1'', ''v2''])])) ''A''
     = Some (ex_entry ''A'' ''v1'' [''v1'', ''v2'']) \<and>
   ''v2'' \<in> version ` set (versions (ex_entry ''A'' ''v1'' [''v1'', ''v2''])) \<and>
   add_volume_version (\<lambda>s. s) ''t1'' ''t2''
     (ex_manifest [(''A'', ex_entry ''A'' ''v1'' [''v1'', ''v2''])]) ''A'' ''v2''
     ''me'' [] None None None
     = (False, ex_manifest [(''A'', ex_entry ''A'' ''v1'' [''v1'', ''v2''])])"
proof -
  have h: "map_of (volumes (ex_manifest [(''A'', ex_entry ''A'' ''v1'' [''v1'', ''v2''])])) ''A''
       = Some (ex_entry ''A'' ''v1'' [''v1'', ''v2'']) \<and>
     ''v2'' \<in> version ` set (versions (ex_entry ''A'' ''v1'' [''v1'', ''v2'']))"
    by (simp add: ex_manifest_def ex_entry_def ex_version_def)
  from add_volume_version_duplicate
         [of "ex_manifest [(''A'', ex_entry ''A'' ''v1'' [''v1'', ''v2''])]" "''A''" "''v2''"]
  show ?thesis using h by blast
qed

text \<open>
  C10: adding a version does not disturb an existing selection. \<open>add_volume_version\<close>
  leaves the selected version of a subject that is present as it is, sets it to the
  added version only for a subject it creates, and touches no other subject; the merge
  loop of \<open>update_index\<close> leaves the selected version of every subject of the
  manifest as it is, whatever the new volumes carry.
\<close>

theorem adding_keeps_selection:
  "(\<forall>e. map_of (volumes m) k = Some e \<longrightarrow>
      get_selected_version (snd (add_volume_version h n1 n2 m k ver a nt tg tsa lua)) k
        = selected_version e) \<and>
   (map_of (volumes m) k = None \<longrightarrow>
      get_selected_version (snd (add_volume_version h n1 n2 m k ver a nt tg tsa lua)) k
        = Some ver) \<and>
   (\<forall>k'. k' \<noteq> k \<longrightarrow>
      map_of (volumes (snd (add_volume_version h n1 n2 m k ver a nt tg tsa lua))) k'
        = map_of (volumes m) k') \<and>
   (\<forall>e. map_of (volumes m) k = Some e \<longrightarrow>
      get_selected_version (snd (merge_new_volumes new_volumes (lg, m))) k
        = selected_version e)"
proof (intro conjI allI impI)
  fix e assume "map_of (volumes m) k = Some e"
  then show "get_selected_version (snd (add_volume_version h n1 n2 m k ver a nt tg tsa lua)) k
        = selected_version e"
    by (simp add: add_volume_version_def Let_def get_selected_version_def update_conv')
next
  assume "map_of (volumes m) k = None"
  then show "get_selected_version (snd (add_volume_version h n1 n2 m k ver a nt tg tsa lua)) k
        = Some ver"
    by (simp add: add_volume_version_def Let_def get_selected_version_def update_conv')
next
  fix k' assume "k' \<noteq> k"
  then show "map_of (volumes (snd (add_volume_version h n1 n2 m k ver a nt tg tsa lua))) k'
        = map_of (volumes m) k'"
    by (cases "map_of (volumes m) k")
       (auto simp: add_volume_version_def Let_def update_conv')
next
  fix e assume "map_of (volumes m) k = Some e"
  from merge_new_volumes_selected[OF this, of new_volumes lg]
  show "get_selected_version (snd (merge_new_volumes new_volumes (lg, m))) k
        = selected_version e"
    by (auto simp: get_selected_version_def)
qed

theorem adding_keeps_selection_witness:
  "map_of (volumes (ex_manifest [(''A'', ex_entry ''A'' ''v1'' [''v1'', ''v2''])])) ''A''
     = Some (ex_entry ''A'' ''v1'' [''v1'', ''v2'']) \<and>
   map_of (volumes (ex_manifest [(''A'', ex_entry ''A'' ''v1'' [''v1'', ''v2''])])) ''B'' = None \<and>
   get_selected_version
     (snd (add_volume_version (\<lambda>s. s) ''t1'' ''t2''
        (ex_manifest [(''A'', ex_entry ''A'' ''v1'' [''v1'', ''v2''])]) ''A'' ''v3''
        [] [] None None None)) ''A'' = Some ''v1'' \<and>
   get_selected_version
     (snd (add_volume_version (\<lambda>s. s) ''t1'' ''t2''
        (ex_manifest [(''A'', ex_entry ''A'' ''v1'' [''v1'', ''v2''])]) ''B'' ''v3''
        [] [] None None None)) ''B'' = Some ''v3'' \<and>
   map_of (volumes (snd (add_volume_version (\<lambda>s. s) ''t1'' ''t2''
        (ex_manifest [(''A'', ex_entry ''A'' ''v1'' [''v1'', ''v2''])]) ''B'' ''v3''
        [] [] None None None))) ''A'' = Some (ex_entry ''A'' ''v1'' [''v1'', ''v2'']) \<and>
   get_selected_version
     (snd (merge_new_volumes [(''A'', ex_entry ''A'' ''v3'' [''v1'', ''v2'', ''v3''])]
        ([], ex_manifest [(''A'', ex_entry ''A'' ''v1'' [''v1'', ''v2''])]))) ''A''
     = Some ''v1''"
proof -
  let ?m = "ex_manifest [(''A'', ex_entry ''A'' ''v1'' [''v1'', ''v2''])]"
  have h1: "map_of (volumes ?m) ''A'' = Some (ex_entry ''A'' ''v1'' [''v1'', ''v2''])"
    by (simp add: ex_manifest_def)
  have h2: "map_of (volumes ?m) ''B'' = None"
    by (simp add: ex_manifest_def)
  have s: "selected_version (ex_entry ''A'' ''v1'' [''v1'', ''v2'']) = Some ''v1''"
    by (simp add: ex_entry_def)
  have ne: "''A'' \<noteq> ''B''" by simp
  note a = adding_keeps_selection[of ?m "''A''" "\<lambda>s. s" "''t1''" "''t2''" "''v3''" "[]" "[]" None None None
             "[(''A'', ex_entry ''A'' ''v3'' [''v1'', ''v2'', ''v3''])]" "[]"]
  note b = adding_keeps_selection[of ?m "''B''" "\<lambda>s. s" "''t1''" "''t2''" "''v3''" "[]" "[]" None None None
             "[]" "[]"]
  from a h1 s have c1: "get_selected_version
     (snd (add_volume_version (\<lambda>s. s) ''t1'' ''t2'' ?m ''A'' ''v3'' [] [] None None None)) ''A''
       = Some ''v1''" by metis
  from a h1 s have c4: "get_selected_version
     (snd (merge_new_volumes [(''A'', ex_entry ''A'' ''v3'' [''v1'', ''v2'', ''v3''])] ([], ?m))) ''A''
     = Some ''v1''" by metis
  from b h2 have c2: "get_selected_version
     (snd (add_volume_version (\<lambda>s. s) ''t1'' ''t2'' ?m ''B'' ''v3'' [] [] None None None)) ''B''
       = Some ''v3''" by metis
  from b ne h1 have c3: "map_of (volumes (snd (add_volume_version (\<lambda>s. s) ''t1'' ''t2''
        ?m ''B'' ''v3'' [] [] None None None))) ''A'' = Some (ex_entry ''A'' ''v1'' [''v1'', ''v2''])"
    by metis
  from h1 h2 c1 c2 c3 c4 show ?thesis by blast
qed

end
